theory Spec2Isabelle
  imports Complex_Main "HOL-Library.Log_Nat"
begin

section \<open>The cart proxy of changuito (proxy.py) over a model of the store\<close>

text \<open>
  \<^verbatim>\<open>proxy.py\<close> defines \<^verbatim>\<open>CartProxy\<close>, a thin layer over two Django models,
  \<^verbatim>\<open>Cart\<close> and \<^verbatim>\<open>Item\<close>. The database becomes an explicit value, the store: two
  tables (lists of rows) and the two primary-key sequences. Every method takes the store
  and returns it, together with either the exception it raises (\<open>Inl\<close>) or its
  result (\<open>Inr\<close>). An exception carries the store as it is at the raise, since a method
  may have written before it fails.
\<close>

subsection \<open>Rows, store, request and proxy\<close>

text \<open>
  A cart row. \<open>cart_user\<close> is the nullable foreign key to the user; users are numbers.
  \<open>creation_date\<close> is a clock reading.
\<close>

record cart =
  cart_id :: nat
  creation_date :: nat
  cart_user :: "nat option"
  checked_out :: bool

text \<open>A product is referred to by its content type and its primary key.\<close>

record product_ref =
  content_type :: nat
  object_id :: nat

text \<open>
  An item row. \<open>item_cart\<close> is the foreign key to the cart. A \<^verbatim>\<open>Decimal\<close> price is
  represented by its value, a rational; a quantity is an integer.
\<close>

record item =
  item_id :: nat
  item_cart :: nat
  product :: product_ref
  unit_price :: rat
  quantity :: int

record store =
  carts :: "cart list"
  items :: "item list"
  next_cart_id :: nat
  next_item_id :: nat

text \<open>
  Of a request the proxy reads \<^verbatim>\<open>request.user\<close> (\<open>None\<close> is the anonymous user)
  and reads and writes \<^verbatim>\<open>request.session[CART_ID]\<close> (\<open>None\<close>: the key is unset).
\<close>

record request =
  req_user :: "nat option"
  session :: "nat option"

text \<open>
  The proxy object: \<^verbatim>\<open>self.request\<close> (which may be \<^verbatim>\<open>None\<close>) and \<^verbatim>\<open>self.cart\<close>,
  a cart object in memory, that is a copy of a row, not the row itself.
\<close>

record proxy =
  px_request :: "request option"
  px_cart :: cart

text \<open>
  The exceptions. \<open>ItemDoesNotExist\<close> and \<open>CartDoesNotExist\<close> are the classes
  proxy.py declares; \<open>Models_Item_DoesNotExist\<close> and \<open>Models_Cart_DoesNotExist\<close>
  are \<^verbatim>\<open>models.Item.DoesNotExist\<close> and \<^verbatim>\<open>models.Cart.DoesNotExist\<close>;
  \<open>MultipleObjectsReturned\<close> is what \<^verbatim>\<open>objects.get\<close> raises on more than one
  match; \<open>UnboundLocalError\<close> is Python's, for a local variable read before it is
  assigned; \<open>DatabaseError\<close> is what a failing database makes a query or a
  \<^verbatim>\<open>save()\<close> raise; \<open>Overflow\<close> is \<^verbatim>\<open>decimal.Overflow\<close>.
\<close>

datatype error =
    ItemDoesNotExist
  | CartDoesNotExist
  | Models_Item_DoesNotExist
  | Models_Cart_DoesNotExist
  | MultipleObjectsReturned
  | UnboundLocalError
  | DatabaseError
  | Overflow

subsection \<open>The object-relational layer\<close>

text \<open>
  \<^verbatim>\<open>Model.objects.get(**conditions)\<close>: the one row that matches; \<^verbatim>\<open>DoesNotExist\<close>
  of the model when none does, \<^verbatim>\<open>MultipleObjectsReturned\<close> when several do.
\<close>

definition objects_get :: "error \<Rightarrow> ('a \<Rightarrow> bool) \<Rightarrow> 'a list \<Rightarrow> error + 'a" where
  "objects_get does_not_exist cond rows =
     (case filter cond rows of
        [] \<Rightarrow> Inl does_not_exist
      | [r] \<Rightarrow> Inr r
      | _ \<Rightarrow> Inl MultipleObjectsReturned)"

text \<open>\<^verbatim>\<open>cart.item_set.all()\<close>: the items whose foreign key is the cart.\<close>

definition item_set :: "cart \<Rightarrow> store \<Rightarrow> item list" where
  "item_set c s = filter (\<lambda>i. item_cart i = cart_id c) (items s)"

text \<open>
  \<^verbatim>\<open>save()\<close> of an object that has no primary key yet inserts a row under the next
  key of the sequence.

  Modelled from the spec: models.py is not among the sources, so the default of
  \<^verbatim>\<open>checked_out\<close> is taken from the data model: isCheckedOut is false at creation.
\<close>

definition cart_insert :: "nat \<Rightarrow> nat option \<Rightarrow> store \<Rightarrow> cart \<times> store" where
  "cart_insert now u s =
     (let c = \<lparr>cart_id = next_cart_id s, creation_date = now, cart_user = u,
                checked_out = False\<rparr>
      in (c, s\<lparr>carts := carts s @ [c], next_cart_id := Suc (next_cart_id s)\<rparr>))"

definition item_insert :: "nat \<Rightarrow> product_ref \<Rightarrow> rat \<Rightarrow> int \<Rightarrow> store \<Rightarrow> item \<times> store" where
  "item_insert cid p price q s =
     (let i = \<lparr>item_id = next_item_id s, item_cart = cid, product = p,
                unit_price = price, quantity = q\<rparr>
      in (i, s\<lparr>items := items s @ [i], next_item_id := Suc (next_item_id s)\<rparr>))"

text \<open>
  \<^verbatim>\<open>save()\<close> of an object that has a primary key writes all its fields to the row
  with that key, and inserts the row when the update matched none. It has no failing
  path, so the \<^verbatim>\<open>except\<close> clauses around it never run; the result is a sum only so
  that the methods keep the shape of their \<^verbatim>\<open>try\<close> blocks.
\<close>

definition cart_save :: "cart \<Rightarrow> store \<Rightarrow> error + store" where
  "cart_save c s =
     (if \<exists>r \<in> set (carts s). cart_id r = cart_id c
      then Inr (s\<lparr>carts := map (\<lambda>r. if cart_id r = cart_id c then c else r) (carts s)\<rparr>)
      else Inr (s\<lparr>carts := carts s @ [c]\<rparr>))"

definition item_save :: "item \<Rightarrow> store \<Rightarrow> error + store" where
  "item_save i s =
     (if \<exists>r \<in> set (items s). item_id r = item_id i
      then Inr (s\<lparr>items := map (\<lambda>r. if item_id r = item_id i then i else r) (items s)\<rparr>)
      else Inr (s\<lparr>items := items s @ [i]\<rparr>))"

text \<open>
  \<^verbatim>\<open>cart.delete()\<close> removes the row.

  Modelled from the spec: the foreign key of \<^verbatim>\<open>Item\<close> is declared in models.py, which
  is not among the sources; the data model says a cart owns its items and deleting it
  deletes them (cascade).
\<close>

definition cart_delete :: "cart \<Rightarrow> store \<Rightarrow> store" where
  "cart_delete c s =
     s\<lparr>carts := filter (\<lambda>r. cart_id r \<noteq> cart_id c) (carts s),
       items := filter (\<lambda>i. item_cart i \<noteq> cart_id c) (items s)\<rparr>"

definition item_delete :: "item \<Rightarrow> store \<Rightarrow> store" where
  "item_delete i s = s\<lparr>items := filter (\<lambda>r. item_id r \<noteq> item_id i) (items s)\<rparr>"

text \<open>
  \<^verbatim>\<open>cart.item_set.filter(id=item_id).delete()\<close>: a query set's \<^verbatim>\<open>delete()\<close> removes
  the rows the query selects, none when it selects none, and raises nothing for that.
\<close>

definition item_set_filter_delete :: "cart \<Rightarrow> nat \<Rightarrow> store \<Rightarrow> error + store" where
  "item_set_filter_delete c iid s =
     Inr (s\<lparr>items := filter (\<lambda>i. \<not> (item_cart i = cart_id c \<and> item_id i = iid)) (items s)\<rparr>)"

text \<open>
  Modelled from the spec: \<^verbatim>\<open>Item.total_price\<close> is a property of models.py, which is
  not among the sources: totalPrice = unitPrice \<times> quantity, the exact product.
\<close>

definition total_price :: "item \<Rightarrow> rat" where
  "total_price i = unit_price i * of_int (quantity i)"

text \<open>\<^verbatim>\<open>int(quantity)\<close>, on a quantity that is an integer already.\<close>

definition py_int :: "int \<Rightarrow> int" where
  "py_int q = q"

subsection \<open>Decimal arithmetic\<close>

text \<open>
  A \<^verbatim>\<open>Decimal\<close> is a finite decimal number and is represented by its value. An
  operation of Python's \<^verbatim>\<open>decimal\<close> module returns the exact result rounded to the
  precision of the context; the default context has 28 significant digits, rounds half to
  even, lets exponents range up to \<open>Emax\<close>, raises \<^verbatim>\<open>Overflow\<close> beyond, and rounds
  at the exponent \<open>Etiny\<close> what is too small.
\<close>

definition prec :: int where
  "prec = 28"

definition Emax :: int where
  "Emax = 999999"

definition Etiny :: int where
  "Etiny = - 1000026"

definition round_half_even :: "rat \<Rightarrow> int" where
  "round_half_even x =
     (let f = \<lfloor>x\<rfloor>; d = x - of_int f
      in if d < 1 / 2 then f else if 1 / 2 < d then f + 1 else if even f then f else f + 1)"

text \<open>
  \<^verbatim>\<open>Decimal.adjusted()\<close>: the exponent of the most significant digit, that is the
  \<open>a\<close> with \<open>10 powi a \<le> \<bar>r\<bar> < 10 powi (a + 1)\<close>, read off the number of digits of the
  integer part or, below one, of the reciprocal.
\<close>

definition adjusted :: "rat \<Rightarrow> int" where
  "adjusted r =
     (if 1 \<le> \<bar>r\<bar> then int (floorlog 10 (nat \<lfloor>\<bar>r\<bar>\<rfloor>)) - 1
      else - int (floorlog 10 (nat (\<lceil>1 / \<bar>r\<bar>\<rceil> - 1))))"

text \<open>
  What the context makes of an exact result (\<^verbatim>\<open>Decimal._fix\<close>): zero stays; a result
  beyond \<open>Emax\<close> overflows; otherwise the result is rounded to a multiple of the power
  of ten that leaves \<open>prec\<close> digits, or of \<open>10 powi Etiny\<close> when that is larger, and
  overflows when the rounding carried it beyond \<open>Emax\<close>.
\<close>

definition dec_fix :: "rat \<Rightarrow> error + rat" where
  "dec_fix r =
     (if r = 0 then Inr 0
      else if Emax < adjusted r then Inl Overflow
      else
        (let q = 10 powi (max (adjusted r - prec + 1) Etiny);
             v = of_int (round_half_even (r / q)) * q
         in if v \<noteq> 0 \<and> Emax < adjusted v then Inl Overflow else Inr v))"

definition dec_add :: "rat \<Rightarrow> rat \<Rightarrow> error + rat" where
  "dec_add x y = dec_fix (x + y)"

text \<open>
  \<^verbatim>\<open>sum(values)\<close>: the values are added one by one, from the left, to the integer 0;
  each addition is a \<^verbatim>\<open>Decimal\<close> addition, and an exception ends the loop.
\<close>

fun py_sum_from :: "rat \<Rightarrow> rat list \<Rightarrow> error + rat" where
  "py_sum_from acc [] = Inr acc"
| "py_sum_from acc (x # xs) =
     (case dec_add acc x of Inl e \<Rightarrow> Inl e | Inr acc' \<Rightarrow> py_sum_from acc' xs)"

definition py_sum :: "rat list \<Rightarrow> error + rat" where
  "py_sum xs = py_sum_from 0 xs"

subsection \<open>The methods of CartProxy\<close>

text \<open>
  \<^verbatim>\<open>new(request, user)\<close>: a cart created now for the user, saved, its key written to
  the session.
\<close>

definition new :: "request \<Rightarrow> nat option \<Rightarrow> nat \<Rightarrow> store \<Rightarrow> cart \<times> request \<times> store" where
  "new req u now s =
     (let (c, s') = cart_insert now u s
      in (c, req\<lparr>session := Some (cart_id c)\<rparr>, s'))"

text \<open>
  The last branch of the \<^verbatim>\<open>except\<close> clause of the constructor: the cart the caller
  supplied is fetched again by its key, outside any \<^verbatim>\<open>try\<close>.
\<close>

definition refetch :: "request option \<Rightarrow> cart \<Rightarrow> store \<Rightarrow> (error + proxy) \<times> store" where
  "refetch request c s =
     (case objects_get Models_Cart_DoesNotExist (\<lambda>r. cart_id r = cart_id c) (carts s) of
        Inl e \<Rightarrow> (Inl e, s)
      | Inr r \<Rightarrow> (Inr \<lparr>px_request = request, px_cart = r\<rparr>, s))"

text \<open>
  The \<^verbatim>\<open>try\<close> block of the constructor. With no request the local \<^verbatim>\<open>user\<close> was
  never assigned and reading it fails. With a request, an authenticated user's open cart
  is looked up by the user, an anonymous user's by the key held in the session.
\<close>

definition init_try :: "request option \<Rightarrow> store \<Rightarrow> error + cart" where
  "init_try request s =
     (case request of
        None \<Rightarrow> Inl UnboundLocalError
      | Some req \<Rightarrow>
          (case req_user req of
             Some u \<Rightarrow>
               objects_get Models_Cart_DoesNotExist
                 (\<lambda>r. cart_user r = Some u \<and> checked_out r = False) (carts s)
           | None \<Rightarrow>
               objects_get Models_Cart_DoesNotExist
                 (\<lambda>r. Some (cart_id r) = session req \<and> checked_out r = False) (carts s)))"

text \<open>
  \<^verbatim>\<open>CartProxy(request, cart=None)\<close>, after the \<^verbatim>\<open>try\<close> block. \<open>looked_up\<close> is
  what the block produced: the cart it found, or whatever it raised, which the bare
  \<^verbatim>\<open>except\<close> catches. The body of the \<^verbatim>\<open>except\<close> clause runs outside any
  \<^verbatim>\<open>try\<close>: with no cart supplied it calls \<^verbatim>\<open>self.new(request, user=user)\<close>, which
  reads \<^verbatim>\<open>user\<close> again (unbound when there is no request; the user of the request,
  \<open>None\<close> for an anonymous one, otherwise); with a cart supplied it fetches that cart
  again by its key. \<open>fault\<close> is the exception a failing database raises on that
  \<^verbatim>\<open>save()\<close> or query, \<open>None\<close> when the database answers.
\<close>

definition init_with :: "error + cart \<Rightarrow> error option \<Rightarrow> request option \<Rightarrow> cart option \<Rightarrow> nat \<Rightarrow> store \<Rightarrow> (error + proxy) \<times> store" where
  "init_with looked_up fault request cart_arg now s =
     (case looked_up of
        Inr found \<Rightarrow> (Inr \<lparr>px_request = request, px_cart = found\<rparr>, s)
      | Inl _ \<Rightarrow>
          (case cart_arg of
             None \<Rightarrow>
               (case request of
                  None \<Rightarrow> (Inl UnboundLocalError, s)
                | Some req \<Rightarrow>
                    (case fault of
                       Some e \<Rightarrow> (Inl e, s)
                     | None \<Rightarrow>
                         (let (c, req', s') = new req (req_user req) now s
                          in (Inr \<lparr>px_request = Some req', px_cart = c\<rparr>, s'))))
           | Some c \<Rightarrow>
               (case fault of
                  Some e \<Rightarrow> (Inl e, s)
                | None \<Rightarrow> refetch request c s)))"

text \<open>The constructor over a store that answers: the lookup is the one of the store.\<close>

definition init :: "request option \<Rightarrow> cart option \<Rightarrow> nat \<Rightarrow> store \<Rightarrow> (error + proxy) \<times> store" where
  "init request cart_arg now s = init_with (init_try request s) None request cart_arg now s"

text \<open>
  \<^verbatim>\<open>add(product, unit_price, quantity)\<close>: the item of this cart for the product is
  looked up; when there is none an item is created with the price and the quantity as
  given, otherwise the quantity found grows by \<^verbatim>\<open>int(quantity)\<close>. Only
  \<^verbatim>\<open>Item.DoesNotExist\<close> is caught.
\<close>

definition add :: "proxy \<Rightarrow> product_ref \<Rightarrow> rat \<Rightarrow> int \<Rightarrow> store \<Rightarrow> (error + item) \<times> store" where
  "add px p price q s =
     (case objects_get Models_Item_DoesNotExist
             (\<lambda>i. item_cart i = cart_id (px_cart px) \<and> product i = p) (items s) of
        Inl e \<Rightarrow>
          (if e = Models_Item_DoesNotExist
           then (let (i, s') = item_insert (cart_id (px_cart px)) p price q s in (Inr i, s'))
           else (Inl e, s))
      | Inr found \<Rightarrow>
          (let i = found\<lparr>quantity := quantity found + py_int q\<rparr>
           in case item_save i s of
                Inl e \<Rightarrow> (Inl e, s)
              | Inr s' \<Rightarrow> (Inr i, s')))"

text \<open>
  \<^verbatim>\<open>remove_item(item_id)\<close>: the items of this cart with the key are deleted through
  the query set; \<^verbatim>\<open>Item.DoesNotExist\<close> would become \<^verbatim>\<open>ItemDoesNotExist\<close>.
\<close>

definition remove_item :: "proxy \<Rightarrow> nat \<Rightarrow> store \<Rightarrow> (error + unit) \<times> store" where
  "remove_item px iid s =
     (case item_set_filter_delete (px_cart px) iid s of
        Inl e \<Rightarrow> (Inl (if e = Models_Item_DoesNotExist then ItemDoesNotExist else e), s)
      | Inr s' \<Rightarrow> (Inr (), s'))"

text \<open>
  \<^verbatim>\<open>update_item(item_pk, new_quantity)\<close>: the item is looked up by its primary key
  alone.
\<close>

definition update_item :: "proxy \<Rightarrow> nat \<Rightarrow> int \<Rightarrow> store \<Rightarrow> (error + unit) \<times> store" where
  "update_item px pk new_quantity s =
     (case objects_get Models_Item_DoesNotExist (\<lambda>i. item_id i = pk) (items s) of
        Inl e \<Rightarrow> (Inl (if e = Models_Item_DoesNotExist then ItemDoesNotExist else e), s)
      | Inr found \<Rightarrow>
          (case item_save (found\<lparr>quantity := new_quantity\<rparr>) s of
             Inl e \<Rightarrow> (Inl (if e = Models_Item_DoesNotExist then ItemDoesNotExist else e), s)
           | Inr s' \<Rightarrow> (Inr (), s')))"

text \<open>
  \<^verbatim>\<open>update(product, quantity, unit_price=None)\<close>: the item of this cart for the
  product gets the quantity; the body never reads \<^verbatim>\<open>unit_price\<close>.
\<close>

definition update :: "proxy \<Rightarrow> product_ref \<Rightarrow> int \<Rightarrow> rat option \<Rightarrow> store \<Rightarrow> (error + unit) \<times> store" where
  "update px p q price s =
     (case objects_get Models_Item_DoesNotExist
             (\<lambda>i. item_cart i = cart_id (px_cart px) \<and> product i = p) (items s) of
        Inl e \<Rightarrow> (Inl (if e = Models_Item_DoesNotExist then ItemDoesNotExist else e), s)
      | Inr found \<Rightarrow>
          (case item_save (found\<lparr>quantity := q\<rparr>) s of
             Inl e \<Rightarrow> (Inl (if e = Models_Item_DoesNotExist then ItemDoesNotExist else e), s)
           | Inr s' \<Rightarrow> (Inr (), s')))"

text \<open>
  \<^verbatim>\<open>delete_old_cart(user)\<close>: the cart is looked up by the user alone, whatever its
  \<^verbatim>\<open>checked_out\<close>; \<^verbatim>\<open>Cart.DoesNotExist\<close> is passed over, anything else is raised.
\<close>

definition delete_old_cart :: "proxy \<Rightarrow> nat \<Rightarrow> store \<Rightarrow> (error + unit) \<times> store" where
  "delete_old_cart px u s =
     (case objects_get Models_Cart_DoesNotExist (\<lambda>r. cart_user r = Some u) (carts s) of
        Inl e \<Rightarrow> (if e = Models_Cart_DoesNotExist then (Inr (), s) else (Inl e, s))
      | Inr found \<Rightarrow> (Inr (), cart_delete found s))"

text \<open>
  \<^verbatim>\<open>replace(cart_id, new_user)\<close>: \<^verbatim>\<open>delete_old_cart\<close>, then the cart with the key
  gets the new user and is saved and returned. \<^verbatim>\<open>Cart.DoesNotExist\<close> becomes
  \<^verbatim>\<open>CartDoesNotExist\<close>.
\<close>

definition replace :: "proxy \<Rightarrow> nat \<Rightarrow> nat \<Rightarrow> store \<Rightarrow> (error + cart) \<times> store" where
  "replace px cid new_user s =
     (case delete_old_cart px new_user s of
        (Inl e, s1) \<Rightarrow> (Inl (if e = Models_Cart_DoesNotExist then CartDoesNotExist else e), s1)
      | (Inr _, s1) \<Rightarrow>
          (case objects_get Models_Cart_DoesNotExist (\<lambda>r. cart_id r = cid) (carts s1) of
             Inl e \<Rightarrow> (Inl (if e = Models_Cart_DoesNotExist then CartDoesNotExist else e), s1)
           | Inr found \<Rightarrow>
               (let c = found\<lparr>cart_user := Some new_user\<rparr>
                in case cart_save c s1 of
                     Inl e \<Rightarrow>
                       (Inl (if e = Models_Cart_DoesNotExist then CartDoesNotExist else e), s1)
                   | Inr s2 \<Rightarrow> (Inr c, s2))))"

text \<open>
  \<^verbatim>\<open>clear()\<close>: the items of the cart are read once, then each is deleted by its key.
\<close>

definition clear :: "proxy \<Rightarrow> store \<Rightarrow> store" where
  "clear px s = fold item_delete (item_set (px_cart px) s) s"

text \<open>\<^verbatim>\<open>total()\<close>, \<^verbatim>\<open>count()\<close> and \<^verbatim>\<open>unique_count()\<close>.\<close>

definition total_cart :: "proxy \<Rightarrow> store \<Rightarrow> error + rat" where
  "total_cart px s = py_sum (map total_price (item_set (px_cart px) s))"

definition count :: "proxy \<Rightarrow> store \<Rightarrow> int" where
  "count px s = sum_list (map quantity (item_set (px_cart px) s))"

definition unique_count :: "proxy \<Rightarrow> store \<Rightarrow> nat" where
  "unique_count px s = length (item_set (px_cart px) s)"

text \<open>
  \<^verbatim>\<open>get_last_cart(user)\<close>: the user's open cart when there is exactly one; on
  \<^verbatim>\<open>Cart.DoesNotExist\<close> the proxy's own cart object gets the user and is saved.
\<close>

definition get_last_cart :: "proxy \<Rightarrow> nat \<Rightarrow> store \<Rightarrow> (error + cart) \<times> proxy \<times> store" where
  "get_last_cart px u s =
     (case objects_get Models_Cart_DoesNotExist
             (\<lambda>r. cart_user r = Some u \<and> checked_out r = False) (carts s) of
        Inr found \<Rightarrow> (Inr found, px, s)
      | Inl e \<Rightarrow>
          (if e = Models_Cart_DoesNotExist
           then (let c = (px_cart px)\<lparr>cart_user := Some u\<rparr>; px' = px\<lparr>px_cart := c\<rparr>
                 in case cart_save c s of
                      Inl e' \<Rightarrow> (Inl e', px', s)
                    | Inr s' \<Rightarrow> (Inr c, px', s'))
           else (Inl e, px, s)))"

text \<open>
  \<^verbatim>\<open>checkout()\<close>: the proxy's cart object is marked and saved; \<^verbatim>\<open>Cart.DoesNotExist\<close>
  is passed over; the object is returned.
\<close>

definition checkout :: "proxy \<Rightarrow> store \<Rightarrow> (error + cart) \<times> proxy \<times> store" where
  "checkout px s =
     (let c = (px_cart px)\<lparr>checked_out := True\<rparr>; px' = px\<lparr>px_cart := c\<rparr>
      in case cart_save c s of
           Inl e \<Rightarrow> (if e = Models_Cart_DoesNotExist then (Inr c, px', s) else (Inl e, px', s))
         | Inr s' \<Rightarrow> (Inr c, px', s'))"

subsection \<open>Requests served one after another\<close>

text \<open>
  The system as a caller drives it: the store and the proxy constructed last. An operation
  is a call of the constructor or of a method of that proxy; a constructor that raises
  leaves the previous proxy in place, and a method called before any proxy exists does
  nothing.
\<close>

record system =
  db :: store
  the_proxy :: "proxy option"

datatype operation =
    Op_init "request option" "cart option" nat
  | Op_add product_ref rat int
  | Op_remove_item nat
  | Op_update_item nat int
  | Op_update product_ref int "rat option"
  | Op_delete_old_cart nat
  | Op_replace nat nat
  | Op_clear
  | Op_get_last_cart nat
  | Op_checkout

definition method_step :: "operation \<Rightarrow> proxy \<Rightarrow> store \<Rightarrow> proxy \<times> store" where
  "method_step op px s =
     (case op of
        Op_init request cart_arg now \<Rightarrow>
          (case init request cart_arg now s of
             (Inl _, s') \<Rightarrow> (px, s')
           | (Inr px', s') \<Rightarrow> (px', s'))
      | Op_add p price q \<Rightarrow> (px, snd (add px p price q s))
      | Op_remove_item iid \<Rightarrow> (px, snd (remove_item px iid s))
      | Op_update_item pk q \<Rightarrow> (px, snd (update_item px pk q s))
      | Op_update p q price \<Rightarrow> (px, snd (update px p q price s))
      | Op_delete_old_cart u \<Rightarrow> (px, snd (delete_old_cart px u s))
      | Op_replace cid u \<Rightarrow> (px, snd (replace px cid u s))
      | Op_clear \<Rightarrow> (px, clear px s)
      | Op_get_last_cart u \<Rightarrow> snd (get_last_cart px u s)
      | Op_checkout \<Rightarrow> snd (checkout px s))"

definition step :: "operation \<Rightarrow> system \<Rightarrow> system" where
  "step op \<sigma> =
     (case the_proxy \<sigma> of
        Some px \<Rightarrow>
          (let (px', s') = method_step op px (db \<sigma>) in \<lparr>db = s', the_proxy = Some px'\<rparr>)
      | None \<Rightarrow>
          (case op of
             Op_init request cart_arg now \<Rightarrow>
               (case init request cart_arg now (db \<sigma>) of
                  (Inl _, s') \<Rightarrow> \<lparr>db = s', the_proxy = None\<rparr>
                | (Inr px', s') \<Rightarrow> \<lparr>db = s', the_proxy = Some px'\<rparr>)
           | _ \<Rightarrow> \<sigma>))"

definition run :: "operation list \<Rightarrow> system \<Rightarrow> system" where
  "run ops \<sigma> = fold step ops \<sigma>"

definition empty_store :: store where
  "empty_store = \<lparr>carts = [], items = [], next_cart_id = 1, next_item_id = 1\<rparr>"

definition initial_system :: system where
  "initial_system = \<lparr>db = empty_store, the_proxy = None\<rparr>"

subsection \<open>Well-formed stores\<close>

text \<open>
  What the database guarantees of its tables: primary keys are unique, and a sequence is
  ahead of every key it has handed out.
\<close>

definition store_ok :: "store \<Rightarrow> bool" where
  "store_ok s \<longleftrightarrow>
     distinct (map cart_id (carts s)) \<and> distinct (map item_id (items s)) \<and>
     (\<forall>c \<in> set (carts s). cart_id c < next_cart_id s) \<and>
     (\<forall>i \<in> set (items s). item_id i < next_item_id s)"

text \<open>
  A cart object in memory is current when its key was handed out by the store and it
  shows the cart as checked out whenever the store does.
\<close>

definition cart_current :: "cart \<Rightarrow> store \<Rightarrow> bool" where
  "cart_current c s \<longleftrightarrow>
     cart_id c < next_cart_id s \<and>
     (\<forall>r \<in> set (carts s). cart_id r = cart_id c \<and> checked_out r \<longrightarrow> checked_out c)"

definition system_ok :: "system \<Rightarrow> bool" where
  "system_ok \<sigma> \<longleftrightarrow>
     store_ok (db \<sigma>) \<and>
     (case the_proxy \<sigma> of None \<Rightarrow> True | Some px \<Rightarrow> cart_current (px_cart px) (db \<sigma>))"

definition cart_checked_out :: "nat \<Rightarrow> store \<Rightarrow> bool" where
  "cart_checked_out cid s \<longleftrightarrow> (\<exists>r \<in> set (carts s). cart_id r = cid \<and> checked_out r)"

definition cart_open :: "nat \<Rightarrow> store \<Rightarrow> bool" where
  "cart_open cid s \<longleftrightarrow> (\<exists>r \<in> set (carts s). cart_id r = cid \<and> \<not> checked_out r)"

text \<open>
  A key is sealed in a store when the sequence has handed it out and every row under it
  is checked out; it is sealed in a system when, moreover, the live proxy's cart object,
  if it has that key, is checked out.
\<close>

definition store_sealed :: "nat \<Rightarrow> store \<Rightarrow> bool" where
  "store_sealed cid s \<longleftrightarrow>
     cid < next_cart_id s \<and> (\<forall>r \<in> set (carts s). cart_id r = cid \<longrightarrow> checked_out r)"

definition proxy_sealed :: "nat \<Rightarrow> proxy \<Rightarrow> bool" where
  "proxy_sealed cid px \<longleftrightarrow> (cart_id (px_cart px) = cid \<longrightarrow> checked_out (px_cart px))"

definition sealed :: "nat \<Rightarrow> system \<Rightarrow> bool" where
  "sealed cid \<sigma> \<longleftrightarrow>
     store_sealed cid (db \<sigma>) \<and>
     (case the_proxy \<sigma> of None \<Rightarrow> True | Some px \<Rightarrow> proxy_sealed cid px)"

text \<open>The methods that write items only leave the cart table and its sequence alone.\<close>

definition same_carts :: "store \<Rightarrow> store \<Rightarrow> bool" where
  "same_carts s s' \<longleftrightarrow> carts s' = carts s \<and> next_cart_id s' = next_cart_id s"

text \<open>
  What a write keeps, on a well-formed store: the store well-formed, a cart object that
  is not written current, and a sealed key sealed.
\<close>

definition keeps :: "cart \<Rightarrow> nat \<Rightarrow> store \<Rightarrow> store \<Rightarrow> bool" where
  "keeps d cid s s' \<longleftrightarrow>
     (store_ok s \<longrightarrow>
        store_ok s' \<and> (cart_current d s \<longrightarrow> cart_current d s') \<and>
        (store_sealed cid s \<longrightarrow> store_sealed cid s'))"

subsection \<open>Several proxies at once\<close>

text \<open>
  The system with any number of proxy objects alive: the store and the proxies
  constructed so far. A call constructs one more proxy, or invokes a method on the proxy
  with a given number; a call on a number that is not there does nothing.
\<close>

record world =
  w_db :: store
  w_proxies :: "proxy list"

datatype call =
    Construct "request option" "cart option" nat
  | Call nat operation

definition call_step :: "call \<Rightarrow> world \<Rightarrow> world" where
  "call_step c w =
     (case c of
        Construct request cart_arg now \<Rightarrow>
          (case init request cart_arg now (w_db w) of
             (Inl _, s') \<Rightarrow> w\<lparr>w_db := s'\<rparr>
           | (Inr px, s') \<Rightarrow> \<lparr>w_db = s', w_proxies = w_proxies w @ [px]\<rparr>)
      | Call i op \<Rightarrow>
          (if i < length (w_proxies w)
           then (let (px', s') = method_step op (w_proxies w ! i) (w_db w)
                 in \<lparr>w_db = s', w_proxies = (w_proxies w)[i := px']\<rparr>)
           else w))"

definition calls :: "call list \<Rightarrow> world \<Rightarrow> world" where
  "calls cs w = fold call_step cs w"

definition empty_world :: world where
  "empty_world = \<lparr>w_db = empty_store, w_proxies = []\<rparr>"

text \<open>
  The one call that can write an open copy of a checked-out cart back:
  \<^verbatim>\<open>get_last_cart\<close> on a proxy whose cart object has the key and is not checked out.
  A sequence of calls is guarded for a key when it contains no such call.
\<close>

definition stale_get_last_cart :: "nat \<Rightarrow> call \<Rightarrow> world \<Rightarrow> bool" where
  "stale_get_last_cart cid c w =
     (case c of
        Construct _ _ _ \<Rightarrow> False
      | Call i op \<Rightarrow>
          (case op of
             Op_get_last_cart _ \<Rightarrow>
               i < length (w_proxies w) \<and> \<not> proxy_sealed cid (w_proxies w ! i)
           | _ \<Rightarrow> False))"

fun guarded :: "nat \<Rightarrow> call list \<Rightarrow> world \<Rightarrow> bool" where
  "guarded cid [] w = True"
| "guarded cid (c # cs) w =
     (\<not> stale_get_last_cart cid c w \<and> guarded cid cs (call_step c w))"

text \<open>A world is well-formed when its store is and every proxy's cart has a key handed out.\<close>

definition world_ok :: "world \<Rightarrow> bool" where
  "world_ok w \<longleftrightarrow>
     store_ok (w_db w) \<and>
     (\<forall>px \<in> set (w_proxies w). cart_id (px_cart px) < next_cart_id (w_db w))"

subsection \<open>Concrete data\<close>

definition product_A :: product_ref where
  "product_A = \<lparr>content_type = 1, object_id = 1\<rparr>"

definition product_B :: product_ref where
  "product_B = \<lparr>content_type = 1, object_id = 2\<rparr>"

definition anonymous_request :: request where
  "anonymous_request = \<lparr>req_user = None, session = None\<rparr>"

definition user_request :: "nat \<Rightarrow> request" where
  "user_request u = \<lparr>req_user = Some u, session = None\<rparr>"

definition cart_1 :: cart where
  "cart_1 = \<lparr>cart_id = 1, creation_date = 0, cart_user = None, checked_out = False\<rparr>"

definition proxy_1 :: proxy where
  "proxy_1 = \<lparr>px_request = Some (anonymous_request\<lparr>session := Some 1\<rparr>), px_cart = cart_1\<rparr>"

definition store_1 :: store where
  "store_1 = \<lparr>carts = [cart_1], items = [], next_cart_id = 2, next_item_id = 1\<rparr>"

definition item_A :: item where
  "item_A = \<lparr>item_id = 1, item_cart = 1, product = product_A, unit_price = 7 / 2, quantity = 2\<rparr>"

definition item_B :: item where
  "item_B = \<lparr>item_id = 2, item_cart = 1, product = product_B, unit_price = 5 / 4, quantity = 4\<rparr>"

definition store_AB :: store where
  "store_AB = \<lparr>carts = [cart_1], items = [item_A, item_B], next_cart_id = 2, next_item_id = 3\<rparr>"

definition cart_2 :: cart where
  "cart_2 = \<lparr>cart_id = 2, creation_date = 5, cart_user = Some 7, checked_out = False\<rparr>"

definition item_C :: item where
  "item_C = \<lparr>item_id = 3, item_cart = 2, product = product_A, unit_price = 10, quantity = 1\<rparr>"

definition store_2 :: store where
  "store_2 = \<lparr>carts = [cart_1, cart_2], items = [item_A, item_B, item_C],
              next_cart_id = 3, next_item_id = 4\<rparr>"

text \<open>Cart 1 without items beside cart 2 with one.\<close>

definition store_C :: store where
  "store_C = \<lparr>carts = [cart_1, cart_2], items = [item_C], next_cart_id = 3, next_item_id = 4\<rparr>"

text \<open>Five items of cart 1 at 21474836469999999978525163.53 each.\<close>

definition big_item :: "nat \<Rightarrow> item" where
  "big_item n = \<lparr>item_id = n, item_cart = 1, product = \<lparr>content_type = 1, object_id = n\<rparr>,
                 unit_price = 2147483646999999997852516353 / 100, quantity = 1\<rparr>"

definition store_big :: store where
  "store_big = \<lparr>carts = [cart_1],
                 items = [big_item 1, big_item 2, big_item 3, big_item 4, big_item 5],
                 next_cart_id = 2, next_item_id = 6\<rparr>"

definition stale_cart :: cart where
  "stale_cart = \<lparr>cart_id = 9, creation_date = 0, cart_user = Some 7, checked_out = False\<rparr>"

definition copy_of_cart_1 :: cart where
  "copy_of_cart_1 = \<lparr>cart_id = 1, creation_date = 0, cart_user = Some 7, checked_out = True\<rparr>"

definition order_7 :: cart where
  "order_7 = \<lparr>cart_id = 1, creation_date = 0, cart_user = Some 7, checked_out = True\<rparr>"

definition open_7 :: cart where
  "open_7 = \<lparr>cart_id = 2, creation_date = 1, cart_user = Some 7, checked_out = False\<rparr>"

definition anonymous_3 :: cart where
  "anonymous_3 = \<lparr>cart_id = 3, creation_date = 2, cart_user = None, checked_out = False\<rparr>"

definition item_3 :: item where
  "item_3 = \<lparr>item_id = 1, item_cart = 3, product = product_A, unit_price = 10, quantity = 1\<rparr>"

definition store_7 :: store where
  "store_7 = \<lparr>carts = [order_7, open_7, anonymous_3], items = [item_3],
              next_cart_id = 4, next_item_id = 2\<rparr>"

definition proxy_3 :: proxy where
  "proxy_3 = \<lparr>px_request = Some (anonymous_request\<lparr>session := Some 3\<rparr>), px_cart = anonymous_3\<rparr>"

definition login_history :: "operation list" where
  "login_history =
     [Op_init (Some (user_request 7)) None 0, Op_checkout,
      Op_init (Some (user_request 7)) None 1,
      Op_init (Some anonymous_request) None 2, Op_add product_A 10 1]"

definition proxy_a :: proxy where
  "proxy_a = \<lparr>px_request = Some ((user_request 7)\<lparr>session := Some 1\<rparr>),
              px_cart = \<lparr>cart_id = 1, creation_date = 0, cart_user = Some 7, checked_out = False\<rparr>\<rparr>"

definition proxy_b :: proxy where
  "proxy_b = \<lparr>px_request = Some (user_request 7), px_cart = px_cart proxy_a\<rparr>"

definition store_a :: store where
  "store_a = \<lparr>carts = [px_cart proxy_a], items = [], next_cart_id = 2, next_item_id = 1\<rparr>"

definition store_b :: store where
  "store_b = store_a\<lparr>carts := [order_7]\<rparr>"

definition two_proxies :: "call list" where
  "two_proxies =
     [Construct (Some (user_request 7)) None 0, Construct (Some (user_request 7)) None 1,
      Call 1 Op_checkout]"

definition later_calls :: "call list" where
  "later_calls =
     [Call 0 (Op_add product_A 10 1), Call 0 Op_checkout, Call 0 (Op_get_last_cart 7),
      Call 1 (Op_get_last_cart 7), Call 1 (Op_replace 1 8)]"

section \<open>Properties\<close>

subsection \<open>Lookups\<close>

lemma objects_get_Nil: "filter cond rows = [] \<Longrightarrow> objects_get e cond rows = Inl e"
  by (simp add: objects_get_def)

lemma objects_get_single: "filter cond rows = [r] \<Longrightarrow> objects_get e cond rows = Inr r"
  by (simp add: objects_get_def)

lemma objects_get_InrD:
  "objects_get e cond rows = Inr r \<Longrightarrow> filter cond rows = [r]"
  by (auto simp: objects_get_def split: list.splits)

lemma objects_get_InlD:
  "objects_get e cond rows = Inl e' \<Longrightarrow> e' = e \<and> filter cond rows = [] \<or> e' = MultipleObjectsReturned"
  by (auto simp: objects_get_def split: list.splits)

subsection \<open>The concrete stores\<close>

lemma item_set_store_AB: "item_set (px_cart proxy_1) store_AB = [item_A, item_B]"
  by (simp add: item_set_def proxy_1_def cart_1_def store_AB_def item_A_def item_B_def)

lemma item_set_store_1: "item_set (px_cart proxy_1) store_1 = []"
  by (simp add: item_set_def store_1_def)

lemma init_store_1: "init (Some anonymous_request) None 0 empty_store = (Inr proxy_1, store_1)"
  by (simp add: init_def init_with_def init_try_def new_def cart_insert_def objects_get_def Let_def
      empty_store_def anonymous_request_def proxy_1_def cart_1_def store_1_def)

lemma add_A_store_1: "add proxy_1 product_A (7 / 2) 2 store_1 =
    (Inr item_A, store_1\<lparr>items := [item_A], next_item_id := 2\<rparr>)"
  by (simp add: add_def objects_get_def item_insert_def Let_def store_1_def proxy_1_def
      cart_1_def item_A_def)

lemma add_B_store_A: "add proxy_1 product_B (5 / 4) 4 (store_1\<lparr>items := [item_A], next_item_id := 2\<rparr>) =
    (Inr item_B, store_AB)"
  by (simp add: add_def objects_get_def item_insert_def Let_def store_1_def proxy_1_def
      cart_1_def item_A_def item_B_def store_AB_def product_A_def product_B_def)

subsection \<open>Removing an item\<close>

text \<open>
  C1. \<^verbatim>\<open>remove_item\<close> is to fail with \<^verbatim>\<open>ItemDoesNotExist\<close> when the cart has no
  item with the key. The query set's \<^verbatim>\<open>delete()\<close> raises nothing when it selects no
  row, so the handler never runs: on the cart with items 1 and 2, removing item 99 returns
  normally and leaves the store as it was.
\<close>

theorem remove_item_absent_returns:
  "remove_item proxy_1 99 store_AB = (Inr (), store_AB)"
  by (simp add: remove_item_def item_set_filter_delete_def store_AB_def item_A_def item_B_def)

lemma remove_item_never_raises: "\<exists>s'. remove_item px iid s = (Inr (), s')"
  by (simp add: remove_item_def item_set_filter_delete_def)

subsection \<open>Decimal sums\<close>

lemma adjusted_bounds:
  assumes "r \<noteq> 0"
  shows "10 powi adjusted r \<le> \<bar>r\<bar>" and "\<bar>r\<bar> < 10 powi (adjusted r + 1)"
proof -
  have "10 powi adjusted r \<le> \<bar>r\<bar> \<and> \<bar>r\<bar> < 10 powi (adjusted r + 1)"
  proof (cases "1 \<le> \<bar>r\<bar>")
    case True
    define n where "n = nat \<lfloor>\<bar>r\<bar>\<rfloor>"
    from True have "1 \<le> \<lfloor>\<bar>r\<bar>\<rfloor>" by (simp add: le_floor_iff)
    then have n: "0 < n" "of_nat n \<le> \<bar>r\<bar>" "\<bar>r\<bar> < of_nat n + 1"
      using floor_correct [of "\<bar>r\<bar>"] by (simp_all add: n_def)
    define w where "w = floorlog 10 n"
    from floorlog_bounds [of n 10] n have b: "10 ^ (w - 1) \<le> n" "n < 10 ^ w"
      by (simp_all add: w_def)
    from n have "0 < w" by (simp add: w_def floorlog_def)
    from True have adj: "adjusted r = int w - 1"
      by (simp add: adjusted_def w_def n_def)
    have "(10::rat) ^ (w - 1) \<le> of_nat n"
      using b(1) by (metis of_nat_le_iff of_nat_numeral of_nat_power)
    from this n(2) have lo: "(10::rat) ^ (w - 1) \<le> \<bar>r\<bar>" by (rule order_trans)
    have "of_nat n + 1 \<le> (10::rat) ^ w"
      using b(2) by (metis Suc_leI of_nat_Suc of_nat_le_iff of_nat_numeral of_nat_power semiring_1_class.of_nat_simps(2) add.commute)
    from n(3) this have hi: "\<bar>r\<bar> < (10::rat) ^ w" by (rule less_le_trans)
    have "int w - 1 = int (w - 1)" using \<open>0 < w\<close> by simp
    then have e1: "(10::rat) powi (int w - 1) = 10 ^ (w - 1)"
      by (simp only: power_int_of_nat)
    have e2: "(10::rat) powi (int w - 1 + 1) = 10 ^ w"
      by simp
    from lo hi show ?thesis
      unfolding adj e1 e2 by simp
  next
    case False
    with assms have r: "0 < \<bar>r\<bar>" "\<bar>r\<bar> < 1" by simp_all
    define y where "y = 1 / \<bar>r\<bar>"
    from r have y: "1 < y" by (simp add: y_def)
    define m where "m = nat (\<lceil>y\<rceil> - 1)"
    from y have "2 \<le> \<lceil>y\<rceil>" by (simp add: le_ceiling_iff)
    then have m: "0 < m" "of_nat m < y" "y \<le> of_nat m + 1"
      using ceiling_correct [of y] by (simp_all add: m_def)
    define w where "w = floorlog 10 m"
    from floorlog_bounds [of m 10] m have b: "10 ^ (w - 1) \<le> m" "m < 10 ^ w"
      by (simp_all add: w_def)
    from m have "0 < w" by (simp add: w_def floorlog_def)
    from False have adj: "adjusted r = - int w"
      by (simp add: adjusted_def w_def m_def y_def)
    have "(10::rat) ^ (w - 1) \<le> of_nat m"
      using b(1) by (metis of_nat_le_iff of_nat_numeral of_nat_power)
    from this m(2) have lo: "(10::rat) ^ (w - 1) < y" by (rule le_less_trans)
    have "of_nat m + 1 \<le> (10::rat) ^ w"
      using b(2) by (metis Suc_leI of_nat_Suc of_nat_le_iff of_nat_numeral of_nat_power semiring_1_class.of_nat_simps(2) add.commute)
    from m(3) this have hi: "y \<le> (10::rat) ^ w" by (rule order_trans)
    have r_eq: "\<bar>r\<bar> = 1 / y" by (simp add: y_def)
    from hi y have "1 / (10::rat) ^ w \<le> \<bar>r\<bar>"
      unfolding r_eq by (intro divide_left_mono) auto
    moreover from lo y have "\<bar>r\<bar> < 1 / (10::rat) ^ (w - 1)"
      unfolding r_eq by (intro divide_strict_left_mono) auto
    moreover have e1: "(10::rat) powi (- int w) = 1 / 10 ^ w"
      by (simp add: power_int_minus divide_inverse)
    moreover have "- int w + 1 = - int (w - 1)" using \<open>0 < w\<close> by simp
    then have e2: "(10::rat) powi (- int w + 1) = 1 / 10 ^ (w - 1)"
      by (simp only: power_int_minus power_int_of_nat divide_inverse mult_1)
    ultimately show ?thesis
      unfolding adj by simp
  qed
  then show "10 powi adjusted r \<le> \<bar>r\<bar>" and "\<bar>r\<bar> < 10 powi (adjusted r + 1)"
    by simp_all
qed

lemma powi_less_cancel:
  assumes "(10::rat) powi x < 10 powi y"
  shows "x < y"
proof (rule ccontr)
  assume "\<not> x < y"
  then have "y \<le> x" by simp
  then have "(10::rat) powi y \<le> 10 powi x"
    by (rule power_int_increasing) simp
  with assms show False by simp
qed

lemma adjusted_eqI:
  assumes lo: "10 powi a \<le> \<bar>r\<bar>" and hi: "\<bar>r\<bar> < 10 powi (a + 1)"
  shows "adjusted r = a"
proof -
  have r: "r \<noteq> 0"
  proof
    assume "r = 0"
    with lo have "(10::rat) powi a \<le> 0" by simp
    moreover have "(0::rat) < 10 powi a" by simp
    ultimately show False by linarith
  qed
  note b = adjusted_bounds [OF r]
  from b(1) hi have "(10::rat) powi adjusted r < 10 powi (a + 1)" by (rule le_less_trans)
  then have "adjusted r < a + 1"
    by (rule powi_less_cancel)
  moreover from lo b(2) have "(10::rat) powi a < 10 powi (adjusted r + 1)" by (rule le_less_trans)
  then have "a < adjusted r + 1"
    by (rule powi_less_cancel)
  ultimately show ?thesis by simp
qed

lemma round_half_even_of_int [simp]: "round_half_even (of_int n) = n"
  by (simp add: round_half_even_def)

lemma dec_fix_exact:
  assumes int: "r * 10 ^ k \<in> \<int>" and small: "\<bar>r\<bar> * 10 ^ k < 10 ^ 28" and k: "- int k \<ge> Etiny"
  shows "dec_fix r = Inr r"
proof (cases "r = 0")
  case True
  then show ?thesis by (simp add: dec_fix_def)
next
  case False
  note b = adjusted_bounds [OF False]
  define a where "a = adjusted r"
  from int obtain c where c: "r * 10 ^ k = of_int c" by (auto elim: Ints_cases)
  then have r: "r = of_int c * 10 powi (- int k)"
    by (simp add: power_int_minus field_simps)
  from small have "\<bar>r\<bar> < 10 ^ 28 / 10 ^ k"
    by (simp add: field_simps)
  also have "\<dots> = 10 powi (28 - int k)"
    by (simp add: power_int_diff)
  finally have lt: "\<bar>r\<bar> < 10 powi (28 - int k)" .
  from b(1) lt have "(10::rat) powi a < 10 powi (28 - int k)"
    unfolding a_def by (rule le_less_trans)
  then have "a < 28 - int k"
    by (rule powi_less_cancel)
  then have a_le: "a \<le> 27 - int k" by simp
  have "\<bar>r\<bar> < 10 ^ 28"
  proof -
    have "\<bar>r\<bar> * 1 \<le> \<bar>r\<bar> * 10 ^ k" by (intro mult_left_mono) auto
    with small show ?thesis by simp
  qed
  then have "\<bar>r\<bar> < 10 powi 28" by simp
  with b(1) have "(10::rat) powi a < 10 powi 28"
    unfolding a_def by (rule le_less_trans)
  then have a28: "a < 28"
    by (rule powi_less_cancel)
  define m where "m = max (a - prec + 1) Etiny"
  from a_le k have m: "m \<le> - int k"
    by (simp add: m_def prec_def)
  define j where "j = nat (- int k - m)"
  have q: "(10::rat) powi (- int k) = 10 ^ j * 10 powi m"
  proof -
    from m have "- int k = int j + m" by (simp add: j_def)
    then show ?thesis by (simp add: power_int_add)
  qed
  have "r / 10 powi m = of_int (c * 10 ^ j)"
    unfolding r q by simp
  then have v: "of_int (round_half_even (r / 10 powi m)) * 10 powi m = r"
    unfolding r q by (simp only: round_half_even_of_int) simp
  from a28 have "\<not> Emax < a" by (simp add: Emax_def)
  with False v show ?thesis
    by (simp add: dec_fix_def Let_def a_def [symmetric] m_def [symmetric])
qed

lemma py_sum_from_exact:
  assumes "acc * 10 ^ k \<in> \<int>" and "\<forall>x \<in> set xs. x * 10 ^ k \<in> \<int>"
    and "(\<bar>acc\<bar> + (\<Sum>x\<leftarrow>xs. \<bar>x\<bar>)) * 10 ^ k < 10 ^ 28" and "- int k \<ge> Etiny"
  shows "py_sum_from acc xs = Inr (acc + sum_list xs)"
  using assms
proof (induction xs arbitrary: acc)
  case Nil
  then show ?case by simp
next
  case (Cons x xs)
  have i: "(acc + x) * 10 ^ k \<in> \<int>"
    using Cons.prems(1,2) by (simp add: distrib_right)
  have nonneg: "0 \<le> (\<Sum>x\<leftarrow>xs. \<bar>x\<bar>)"
    by (rule sum_list_nonneg) auto
  have p3: "(\<bar>acc\<bar> + (\<bar>x\<bar> + (\<Sum>x\<leftarrow>xs. \<bar>x\<bar>))) * 10 ^ k < 10 ^ 28"
    using Cons.prems(3) by simp
  have "\<bar>acc + x\<bar> * 10 ^ k \<le> (\<bar>acc\<bar> + (\<bar>x\<bar> + (\<Sum>x\<leftarrow>xs. \<bar>x\<bar>))) * 10 ^ k"
    using nonneg by (intro mult_right_mono) auto
  from this p3 have s: "\<bar>acc + x\<bar> * 10 ^ k < 10 ^ 28" by (rule le_less_trans)
  have step: "dec_add acc x = Inr (acc + x)"
    unfolding dec_add_def by (rule dec_fix_exact [OF i s Cons.prems(4)])
  have "(\<bar>acc + x\<bar> + (\<Sum>x\<leftarrow>xs. \<bar>x\<bar>)) * 10 ^ k \<le> (\<bar>acc\<bar> + (\<bar>x\<bar> + (\<Sum>x\<leftarrow>xs. \<bar>x\<bar>))) * 10 ^ k"
    by (intro mult_right_mono) auto
  from this p3 have b: "(\<bar>acc + x\<bar> + (\<Sum>x\<leftarrow>xs. \<bar>x\<bar>)) * 10 ^ k < 10 ^ 28"
    by (rule le_less_trans)
  from Cons.IH [OF i _ b Cons.prems(4)] Cons.prems(2) step show ?case
    by (simp add: add.assoc)
qed

lemma py_sum_exact:
  assumes "\<forall>x \<in> set xs. x * 10 ^ k \<in> \<int>"
    and "(\<Sum>x\<leftarrow>xs. \<bar>x\<bar>) * 10 ^ k < 10 ^ 28" and "- int k \<ge> Etiny"
  shows "py_sum xs = Inr (sum_list xs)"
  using py_sum_from_exact [of 0 k xs] assms by (simp add: py_sum_def)

lemma floor_rat_numeral: "\<lfloor>(numeral a :: rat) / numeral b\<rfloor> = numeral a div numeral b"
  by (metis floor_divide_of_int_eq of_int_numeral)

lemma dec_fix_eqI:
  assumes "r \<noteq> 0" and "adjusted r = a" and "a \<le> Emax"
    and "max (a - prec + 1) Etiny = m"
    and "round_half_even (r / 10 powi m) = n"
    and "v = of_int n * 10 powi m"
    and "v = 0 \<or> adjusted v \<le> Emax"
  shows "dec_fix r = Inr v"
  using assms by (auto simp: dec_fix_def Let_def)

lemma dec_fix_rounds:
  "dec_fix (10737418234999999989262581765 / 100) = Inr (1073741823499999998926258176 / 10)"
proof (rule dec_fix_eqI)
  show "(10737418234999999989262581765 / 100 :: rat) \<noteq> 0" by simp
  show "adjusted (10737418234999999989262581765 / 100) = 26"
    by (rule adjusted_eqI) simp_all
  show "26 \<le> Emax" by (simp add: Emax_def)
  show "max (26 - prec + 1) Etiny = - 1" by (simp add: prec_def Etiny_def)
  show "round_half_even (10737418234999999989262581765 / 100 / 10 powi (- 1)) =
      1073741823499999998926258176"
    by (simp add: round_half_even_def power_int_minus Let_def floor_rat_numeral)
  show "(1073741823499999998926258176 / 10 :: rat) =
      of_int 1073741823499999998926258176 * 10 powi (- 1)"
    by (simp add: power_int_minus)
  have "adjusted (1073741823499999998926258176 / 10) = 26"
    by (rule adjusted_eqI) simp_all
  then show "(1073741823499999998926258176 / 10 :: rat) = 0 \<or>
      adjusted (1073741823499999998926258176 / 10) \<le> Emax"
    by (simp add: Emax_def)
qed

subsection \<open>Totals and counts\<close>

lemma filter_cart_1_store_2:
  "filter (\<lambda>i. item_cart i = cart_id (px_cart proxy_1)) (items store_2) = [item_A, item_B]"
  by (simp add: store_2_def proxy_1_def cart_1_def item_A_def item_B_def item_C_def)

lemma filter_cart_1_store_C:
  "filter (\<lambda>i. item_cart i = cart_id (px_cart proxy_1)) (items store_C) = []"
  by (simp add: store_C_def proxy_1_def cart_1_def item_C_def)

text \<open>
  C6, as the claim states it, fails: the sum is a sum of \<^verbatim>\<open>Decimal\<close> values in the
  default context, which keeps 28 significant digits. The cart with five items at
  21474836469999999978525163.53 totals 107374182349999999892625817.6, while the exact sum
  is 107374182349999999892625817.65.
\<close>

theorem total_cart_rounds:
  "total_cart proxy_1 store_big = Inr (1073741823499999998926258176 / 10) \<and>
   (\<Sum>i\<leftarrow>filter (\<lambda>i. item_cart i = cart_id (px_cart proxy_1)) (items store_big).
      unit_price i * of_int (quantity i)) = 10737418234999999989262581765 / 100"
proof
  let ?x = "2147483646999999997852516353 / 100 :: rat"
  have k: "Etiny \<le> - int 2" by (simp add: Etiny_def)
  have exact: "dec_fix (of_int n * ?x) = Inr (of_int n * ?x)" if "\<bar>n\<bar> \<le> 4" for n :: int
  proof (rule dec_fix_exact [OF _ _ k])
    show "of_int n * ?x * 10\<^sup>2 \<in> \<int>" by simp
    from that have "\<bar>of_int n :: rat\<bar> \<le> 4"
      by (metis of_int_abs of_int_le_iff of_int_numeral)
    then have "\<bar>of_int n * ?x\<bar> * 10\<^sup>2 \<le> 4 * (2147483646999999997852516353 / 100 * 10\<^sup>2)"
      by (simp add: abs_mult)
    also have "\<dots> < 10 ^ 28" by simp
    finally show "\<bar>of_int n * ?x\<bar> * 10\<^sup>2 < 10 ^ 28" .
  qed
  have s1: "dec_add 0 ?x = Inr ?x"
    using exact [of 1] by (simp add: dec_add_def)
  have s2: "dec_add ?x ?x = Inr (2 * ?x)"
    using exact [of 2] by (simp add: dec_add_def)
  have s3: "dec_add (2 * ?x) ?x = Inr (3 * ?x)"
    using exact [of 3] by (simp add: dec_add_def)
  have s4: "dec_add (3 * ?x) ?x = Inr (4 * ?x)"
    using exact [of 4] by (simp add: dec_add_def)
  have s5: "dec_add (4 * ?x) ?x = Inr (1073741823499999998926258176 / 10)"
    using dec_fix_rounds by (simp add: dec_add_def)
  have "py_sum [?x, ?x, ?x, ?x, ?x] = Inr (1073741823499999998926258176 / 10)"
    unfolding py_sum_def py_sum_from.simps s1 s2 s3 s4 s5 sum.case by (rule refl)
  then show "total_cart proxy_1 store_big = Inr (1073741823499999998926258176 / 10)"
    by (simp add: total_cart_def item_set_def total_price_def store_big_def big_item_def
        proxy_1_def cart_1_def)
  show "(\<Sum>i\<leftarrow>filter (\<lambda>i. item_cart i = cart_id (px_cart proxy_1)) (items store_big).
      unit_price i * of_int (quantity i)) = 10737418234999999989262581765 / 100"
    by (simp add: store_big_def big_item_def proxy_1_def cart_1_def)
qed

text \<open>
  C6, amended. Over the items of the table whose cart is the proxy's, and only those:
  when every line total has at most \<open>k\<close> decimal places and the sum of the magnitudes
  of the line totals, counted in units of the last place, is below \<open>10 ^ 28\<close>, then
  \<^verbatim>\<open>total()\<close> returns the exact sum of unit price times quantity, since no addition
  needs more digits than the context keeps. It returns zero on a cart without items, and
  exactly 12 on a cart whose items are (3.50, 2) and (1.25, 4).
\<close>

theorem total_cart_exact_sum:
  "((\<forall>i \<in> set (filter (\<lambda>i. item_cart i = cart_id (px_cart px)) (items s)).
        total_price i * 10 ^ k \<in> \<int>) \<and>
    (\<Sum>i\<leftarrow>filter (\<lambda>i. item_cart i = cart_id (px_cart px)) (items s). \<bar>total_price i\<bar>) * 10 ^ k
      < 10 ^ 28 \<and>
    k \<le> 1000026 \<longrightarrow>
    total_cart px s =
      Inr (\<Sum>i\<leftarrow>filter (\<lambda>i. item_cart i = cart_id (px_cart px)) (items s).
             unit_price i * of_int (quantity i))) \<and>
   (filter (\<lambda>i. item_cart i = cart_id (px_cart px)) (items s) = [] \<longrightarrow>
      total_cart px s = Inr 0) \<and>
   (map (\<lambda>i. (unit_price i, quantity i))
        (filter (\<lambda>i. item_cart i = cart_id (px_cart px)) (items s)) = [(7 / 2, 2), (5 / 4, 4)]
      \<longrightarrow> total_cart px s = Inr 12)"
proof (intro conjI impI)
  let ?xs = "filter (\<lambda>i. item_cart i = cart_id (px_cart px)) (items s)"
  assume h: "(\<forall>i \<in> set ?xs. total_price i * 10 ^ k \<in> \<int>) \<and>
    (\<Sum>i\<leftarrow>?xs. \<bar>total_price i\<bar>) * 10 ^ k < 10 ^ 28 \<and> k \<le> 1000026"
  then have k: "Etiny \<le> - int k" by (simp add: Etiny_def)
  from h have "py_sum (map total_price ?xs) = Inr (sum_list (map total_price ?xs))"
    by (intro py_sum_exact [OF _ _ k]) (simp_all add: comp_def)
  then show "total_cart px s = Inr (\<Sum>i\<leftarrow>?xs. unit_price i * of_int (quantity i))"
    by (simp add: total_cart_def item_set_def total_price_def [abs_def])
next
  assume "filter (\<lambda>i. item_cart i = cart_id (px_cart px)) (items s) = []"
  then show "total_cart px s = Inr 0"
    by (simp add: total_cart_def item_set_def py_sum_def)
next
  let ?xs = "filter (\<lambda>i. item_cart i = cart_id (px_cart px)) (items s)"
  assume "map (\<lambda>i. (unit_price i, quantity i)) ?xs = [(7 / 2, 2), (5 / 4, 4)]"
  then obtain a b where ab: "?xs = [a, b]"
    and v: "unit_price a = 7 / 2" "quantity a = 2" "unit_price b = 5 / 4" "quantity b = 4"
    by auto
  have k: "Etiny \<le> - int 2" by (simp add: Etiny_def)
  have "py_sum [7, 5] = Inr (sum_list [7, 5])"
    by (rule py_sum_exact [OF _ _ k]) simp_all
  with ab v show "total_cart px s = Inr 12"
    by (simp add: total_cart_def item_set_def total_price_def)
qed

theorem total_cart_exact_sum_witness:
  "filter (\<lambda>i. item_cart i = cart_id (px_cart proxy_1)) (items store_2) = [item_A, item_B] \<and>
   total_price item_A = 7 \<and> total_price item_B = 5 \<and>
   total_cart proxy_1 store_2 = Inr 12 \<and>
   (\<Sum>i\<leftarrow>items store_2. unit_price i * of_int (quantity i)) = 22 \<and>
   filter (\<lambda>i. item_cart i = cart_id (px_cart proxy_1)) (items store_C) = [] \<and>
   total_cart proxy_1 store_C = Inr 0"
proof -
  have A: "total_price item_A = 7" and B: "total_price item_B = 5"
    by (simp_all add: total_price_def item_A_def item_B_def)
  have places: "\<forall>i \<in> set (filter (\<lambda>i. item_cart i = cart_id (px_cart proxy_1)) (items store_2)).
      total_price i * 10\<^sup>2 \<in> \<int>"
    by (simp add: filter_cart_1_store_2 A B)
  have bound: "(\<Sum>i\<leftarrow>filter (\<lambda>i. item_cart i = cart_id (px_cart proxy_1)) (items store_2).
      \<bar>total_price i\<bar>) * 10\<^sup>2 < 10 ^ 28"
    by (simp add: filter_cart_1_store_2 total_price_def item_A_def item_B_def)
  have "total_cart proxy_1 store_2 = Inr 12"
    using total_cart_exact_sum [of proxy_1 store_2 2] places bound
    by (simp add: filter_cart_1_store_2 item_A_def item_B_def)
  moreover have "total_cart proxy_1 store_C = Inr 0"
    using total_cart_exact_sum [of proxy_1 store_C] filter_cart_1_store_C by simp
  moreover have "(\<Sum>i\<leftarrow>items store_2. unit_price i * of_int (quantity i)) = 22"
    by (simp add: store_2_def item_A_def item_B_def item_C_def)
  ultimately show ?thesis
    using filter_cart_1_store_2 filter_cart_1_store_C A B by simp
qed

text \<open>How \<^verbatim>\<open>add\<close> creates an item.\<close>

lemma add_absent:
  assumes "filter (\<lambda>i. item_cart i = cart_id (px_cart px) \<and> product i = p) (items s) = []"
  shows "add px p price q s =
     (Inr \<lparr>item_id = next_item_id s, item_cart = cart_id (px_cart px), product = p,
            unit_price = price, quantity = q\<rparr>,
      s\<lparr>items := items s @ [\<lparr>item_id = next_item_id s, item_cart = cart_id (px_cart px),
            product = p, unit_price = price, quantity = q\<rparr>],
        next_item_id := Suc (next_item_id s)\<rparr>)"
  using assms by (simp add: add_def objects_get_Nil item_insert_def Let_def)

text \<open>
  C9. Over the items of the table whose cart is the proxy's, and only those:
  \<^verbatim>\<open>count()\<close> is the sum of their quantities; \<^verbatim>\<open>unique_count()\<close> is their number,
  whatever their quantities; and adding two distinct products to a cart without items
  gives a unique count of 2, whatever other carts hold.
\<close>

theorem count_and_unique_count:
  "count px s = (\<Sum>i\<leftarrow>filter (\<lambda>i. item_cart i = cart_id (px_cart px)) (items s). quantity i) \<and>
   unique_count px s = length (filter (\<lambda>i. item_cart i = cart_id (px_cart px)) (items s)) \<and>
   unique_count px (s\<lparr>items := map (\<lambda>i. i\<lparr>quantity := f i\<rparr>) (items s)\<rparr>) = unique_count px s \<and>
   (filter (\<lambda>i. item_cart i = cart_id (px_cart px)) (items s) = [] \<and> a \<noteq> b \<longrightarrow>
      unique_count px (snd (add px b price_b qb (snd (add px a price_a qa s)))) = 2)"
proof (intro conjI impI)
  show "count px s = (\<Sum>i\<leftarrow>filter (\<lambda>i. item_cart i = cart_id (px_cart px)) (items s). quantity i)"
    by (simp add: count_def item_set_def)
  show "unique_count px s = length (filter (\<lambda>i. item_cart i = cart_id (px_cart px)) (items s))"
    by (simp add: unique_count_def item_set_def)
  show "unique_count px (s\<lparr>items := map (\<lambda>i. i\<lparr>quantity := f i\<rparr>) (items s)\<rparr>) = unique_count px s"
    by (simp add: unique_count_def item_set_def filter_map comp_def)
next
  assume h: "filter (\<lambda>i. item_cart i = cart_id (px_cart px)) (items s) = [] \<and> a \<noteq> b"
  let ?c = "cart_id (px_cart px)"
  let ?ia = "\<lparr>item_id = next_item_id s, item_cart = ?c, product = a,
            unit_price = price_a, quantity = qa\<rparr>"
  let ?s1 = "s\<lparr>items := items s @ [?ia], next_item_id := Suc (next_item_id s)\<rparr>"
  from h have none: "filter (\<lambda>i. item_cart i = ?c) (items s) = []"
    by simp
  then have no_a: "filter (\<lambda>i. item_cart i = ?c \<and> product i = a) (items s) = []"
    by (auto simp: filter_empty_conv)
  have s1: "snd (add px a price_a qa s) = ?s1"
    by (simp add: add_absent [OF no_a])
  from none h have no_b: "filter (\<lambda>i. item_cart i = ?c \<and> product i = b) (items ?s1) = []"
    by (auto simp: filter_empty_conv)
  show "unique_count px (snd (add px b price_b qb (snd (add px a price_a qa s)))) = 2"
    unfolding s1 using none by (simp add: add_absent [OF no_b] unique_count_def item_set_def)
qed

theorem count_and_unique_count_witness:
  "count proxy_1 store_2 = 6 \<and> (\<Sum>i\<leftarrow>items store_2. quantity i) = 7 \<and>
   unique_count proxy_1 store_2 = 2 \<and> length (items store_2) = 3 \<and>
   filter (\<lambda>i. item_cart i = cart_id (px_cart proxy_1)) (items store_C) = [] \<and>
   product_A \<noteq> product_B \<and>
   unique_count proxy_1
     (snd (add proxy_1 product_B (5 / 4) 4 (snd (add proxy_1 product_A (7 / 2) 2 store_C)))) = 2 \<and>
   length (items
     (snd (add proxy_1 product_B (5 / 4) 4 (snd (add proxy_1 product_A (7 / 2) 2 store_C))))) = 3"
proof -
  have ne: "product_A \<noteq> product_B"
    by (simp add: product_A_def product_B_def)
  have "length (items
     (snd (add proxy_1 product_B (5 / 4) 4 (snd (add proxy_1 product_A (7 / 2) 2 store_C))))) = 3"
    by (simp add: add_def objects_get_def item_insert_def Let_def store_C_def proxy_1_def
        cart_1_def item_C_def product_A_def product_B_def)
  moreover have "(\<Sum>i\<leftarrow>items store_2. quantity i) = 7" "length (items store_2) = 3"
    by (simp_all add: store_2_def item_A_def item_B_def item_C_def)
  ultimately show ?thesis
    using count_and_unique_count [where px = proxy_1 and s = store_2]
      count_and_unique_count [where px = proxy_1 and s = store_C and a = product_A
        and b = product_B and price_a = "7 / 2" and qa = 2 and price_b = "5 / 4" and qb = 4]
      filter_cart_1_store_2 filter_cart_1_store_C ne
    by (simp add: item_A_def item_B_def)
qed

subsection \<open>Primary keys\<close>

lemma store_ok_store_1: "store_ok store_1"
  by (simp add: store_ok_def store_1_def cart_1_def)

lemma store_ok_store_2: "store_ok store_2"
  by (simp add: store_ok_def store_2_def cart_1_def cart_2_def item_A_def item_B_def item_C_def)

lemma filter_key_unique:
  assumes "distinct (map key rows)" and "r \<in> set rows"
  shows "filter (\<lambda>x. key x = key r) rows = [r]"
  using assms
proof (induction rows)
  case Nil
  then show ?case by simp
next
  case (Cons x rows)
  show ?case
  proof (cases "x = r")
    case True
    with Cons.prems have "\<forall>y \<in> set rows. key y \<noteq> key r"
      by (auto simp: image_iff)
    then have "filter (\<lambda>y. key y = key r) rows = []"
      by (simp add: filter_empty_conv)
    with True show ?thesis by simp
  next
    case False
    with Cons.prems have "r \<in> set rows" and "key x \<noteq> key r"
      by (auto simp: image_iff)
    with Cons show ?thesis by simp
  qed
qed

lemma map_key_unique:
  assumes "distinct (map key rows)" and "r \<in> set rows"
  shows "map (\<lambda>x. if key x = key r then g r else x) rows =
         map (\<lambda>x. if key x = key r then g x else x) rows"
proof (rule map_cong [OF refl])
  fix x assume "x \<in> set rows"
  with assms have "key x = key r \<Longrightarrow> x = r"
    by (meson distinct_map inj_onD)
  then show "(if key x = key r then g r else x) = (if key x = key r then g x else x)"
    by auto
qed

lemma item_save_present:
  assumes "distinct (map item_id (items s))" and "r \<in> set (items s)"
  shows "item_save (r\<lparr>quantity := q\<rparr>) s =
     Inr (s\<lparr>items := map (\<lambda>i. if item_id i = item_id r then i\<lparr>quantity := q\<rparr> else i) (items s)\<rparr>)"
proof -
  from assms(2) have "\<exists>x \<in> set (items s). item_id x = item_id r" by blast
  moreover have "map (\<lambda>i. if item_id i = item_id r then r\<lparr>quantity := q\<rparr> else i) (items s) =
      map (\<lambda>i. if item_id i = item_id r then i\<lparr>quantity := q\<rparr> else i) (items s)"
    using map_key_unique [OF assms, of "\<lambda>i. i\<lparr>quantity := q\<rparr>"] .
  ultimately show ?thesis by (simp add: item_save_def)
qed

subsection \<open>Adding a product twice\<close>

lemma add_present:
  assumes d: "distinct (map item_id (items s))"
    and f: "filter (\<lambda>i. item_cart i = cart_id (px_cart px) \<and> product i = p) (items s) = [r]"
  shows "add px p price q s =
     (Inr (r\<lparr>quantity := quantity r + py_int q\<rparr>),
      s\<lparr>items := map (\<lambda>i. if item_id i = item_id r
                            then i\<lparr>quantity := quantity r + py_int q\<rparr> else i) (items s)\<rparr>)"
proof -
  from f have "r \<in> set (filter (\<lambda>i. item_cart i = cart_id (px_cart px) \<and> product i = p) (items s))"
    by simp
  then have r: "r \<in> set (items s)" by simp
  show ?thesis
    by (simp add: add_def objects_get_single [OF f] item_save_present [OF d r] Let_def)
qed

text \<open>
  C2. On a well-formed store where the cart has no item for the product, \<^verbatim>\<open>add\<close>
  creates one item with the given price and quantity, appended to the table; a second
  \<^verbatim>\<open>add\<close> of the product, at whatever price, returns that same item with the quantity
  grown by the second quantity (through \<^verbatim>\<open>int\<close>) and the first price kept, and it is
  then the only item of the cart for the product.
\<close>

theorem add_then_add_again:
  assumes ok: "store_ok s"
    and absent: "filter (\<lambda>i. item_cart i = cart_id (px_cart px) \<and> product i = p) (items s) = []"
  shows "\<exists>i1 s1 i2 s2.
     add px p price q1 s = (Inr i1, s1) \<and>
     item_cart i1 = cart_id (px_cart px) \<and> product i1 = p \<and>
     unit_price i1 = price \<and> quantity i1 = q1 \<and>
     items s1 = items s @ [i1] \<and>
     add px p price2 q2 s1 = (Inr i2, s2) \<and>
     i2 = i1\<lparr>quantity := q1 + py_int q2\<rparr> \<and> py_int q2 = q2 \<and>
     items s2 = items s @ [i2] \<and>
     filter (\<lambda>i. item_cart i = cart_id (px_cart px) \<and> product i = p) (items s2) = [i2]"
proof -
  let ?c = "cart_id (px_cart px)"
  define i1 where "i1 = \<lparr>item_id = next_item_id s, item_cart = ?c, product = p,
              unit_price = price, quantity = q1\<rparr>"
  define s1 where "s1 = s\<lparr>items := items s @ [i1], next_item_id := Suc (next_item_id s)\<rparr>"
  define i2 where "i2 = i1\<lparr>quantity := q1 + py_int q2\<rparr>"
  define s2 where "s2 = s1\<lparr>items := map (\<lambda>i. if item_id i = item_id i1
                            then i\<lparr>quantity := quantity i1 + py_int q2\<rparr> else i) (items s1)\<rparr>"
  have first: "add px p price q1 s = (Inr i1, s1)"
    unfolding i1_def s1_def by (rule add_absent [OF absent])
  have fields: "item_cart i1 = ?c" "product i1 = p" "unit_price i1 = price" "quantity i1 = q1"
    "item_id i1 = next_item_id s"
    by (simp_all add: i1_def)
  have items1: "items s1 = items s @ [i1]"
    by (simp add: s1_def)
  from ok have fresh: "\<forall>i \<in> set (items s). item_id i \<noteq> next_item_id s"
    by (auto simp: store_ok_def)
  from ok fresh have d1: "distinct (map item_id (items s1))"
    by (auto simp: store_ok_def items1 fields)
  from absent have found: "filter (\<lambda>i. item_cart i = ?c \<and> product i = p) (items s1) = [i1]"
    by (simp add: items1 fields)
  have second: "add px p price2 q2 s1 = (Inr i2, s2)"
    unfolding i2_def s2_def using add_present [OF d1 found, of price2 q2] by (simp add: fields)
  have "map (\<lambda>i. if item_id i = item_id i1 then i\<lparr>quantity := quantity i1 + py_int q2\<rparr> else i)
      (items s) = items s"
    using fresh by (simp add: map_idI fields)
  then have items2: "items s2 = items s @ [i2]"
    by (simp add: s2_def items1 i2_def fields)
  have one: "filter (\<lambda>i. item_cart i = ?c \<and> product i = p) (items s2) = [i2]"
    using absent by (simp add: items2 i2_def fields)
  show ?thesis
    using first fields items1 second items2 one i2_def by (auto simp: py_int_def)
qed

theorem add_then_add_again_witness:
  "store_ok store_1 \<and>
   filter (\<lambda>i. item_cart i = cart_id (px_cart proxy_1) \<and> product i = product_A) (items store_1) = [] \<and>
   (\<exists>i1 s1 i2 s2.
     add proxy_1 product_A 10 2 store_1 = (Inr i1, s1) \<and>
     item_cart i1 = cart_id (px_cart proxy_1) \<and> product i1 = product_A \<and>
     unit_price i1 = 10 \<and> quantity i1 = 2 \<and>
     items s1 = items store_1 @ [i1] \<and>
     add proxy_1 product_A 10 3 s1 = (Inr i2, s2) \<and>
     i2 = i1\<lparr>quantity := 2 + py_int 3\<rparr> \<and> py_int 3 = 3 \<and>
     items s2 = items store_1 @ [i2] \<and>
     filter (\<lambda>i. item_cart i = cart_id (px_cart proxy_1) \<and> product i = product_A) (items s2) = [i2])"
proof -
  have absent: "filter (\<lambda>i. item_cart i = cart_id (px_cart proxy_1) \<and> product i = product_A)
      (items store_1) = []"
    by (simp add: store_1_def)
  show ?thesis
    using store_ok_store_1 absent
      add_then_add_again [OF store_ok_store_1 absent, of 10 2 10 3]
    by blast
qed

lemma add_twice_store_1:
  "add proxy_1 product_A 10 3 (snd (add proxy_1 product_A 10 2 store_1)) =
     (Inr \<lparr>item_id = 1, item_cart = 1, product = product_A, unit_price = 10, quantity = 5\<rparr>,
      \<lparr>carts = [cart_1],
        items = [\<lparr>item_id = 1, item_cart = 1, product = product_A, unit_price = 10, quantity = 5\<rparr>],
        next_cart_id = 2, next_item_id = 2\<rparr>)"
  by (simp add: add_def objects_get_def item_insert_def item_save_def py_int_def Let_def
      store_1_def proxy_1_def cart_1_def)

subsection \<open>Setting a quantity\<close>

text \<open>
  C7. \<^verbatim>\<open>update_item\<close> finds the item by its key among all items, whichever proxy is
  asked and whichever cart the item belongs to, and sets its quantity to the value given;
  when no item has the key it raises \<^verbatim>\<open>ItemDoesNotExist\<close> and writes nothing.
\<close>

theorem update_item_by_global_id:
  assumes "distinct (map item_id (items s))"
  shows "(pk \<in> item_id ` set (items s) \<longrightarrow>
           update_item px pk q s =
             (Inr (), s\<lparr>items := map (\<lambda>i. if item_id i = pk then i\<lparr>quantity := q\<rparr> else i) (items s)\<rparr>)) \<and>
         (pk \<notin> item_id ` set (items s) \<longrightarrow> update_item px pk q s = (Inl ItemDoesNotExist, s)) \<and>
         update_item px' pk q s = update_item px pk q s"
proof (intro conjI impI)
  assume "pk \<in> item_id ` set (items s)"
  then obtain r where r: "r \<in> set (items s)" and pk: "pk = item_id r" by auto
  have "objects_get Models_Item_DoesNotExist (\<lambda>i. item_id i = pk) (items s) = Inr r"
    unfolding pk by (rule objects_get_single) (rule filter_key_unique [OF assms r])
  then show "update_item px pk q s =
      (Inr (), s\<lparr>items := map (\<lambda>i. if item_id i = pk then i\<lparr>quantity := q\<rparr> else i) (items s)\<rparr>)"
    by (simp add: update_item_def item_save_present [OF assms r] pk)
next
  assume "pk \<notin> item_id ` set (items s)"
  then have "filter (\<lambda>i. item_id i = pk) (items s) = []"
    by (auto simp: filter_empty_conv)
  then show "update_item px pk q s = (Inl ItemDoesNotExist, s)"
    by (simp add: update_item_def objects_get_Nil)
next
  show "update_item px' pk q s = update_item px pk q s"
    by (simp add: update_item_def)
qed

theorem update_item_by_global_id_witness:
  "distinct (map item_id (items store_2)) \<and>
   item_cart item_C \<noteq> cart_id (px_cart proxy_1) \<and>
   3 \<in> item_id ` set (items store_2) \<and>
   update_item proxy_1 3 9 store_2 = (Inr (), store_2\<lparr>items := [item_A, item_B, item_C\<lparr>quantity := 9\<rparr>]\<rparr>) \<and>
   99 \<notin> item_id ` set (items store_2) \<and>
   update_item proxy_1 99 9 store_2 = (Inl ItemDoesNotExist, store_2)"
proof -
  have d: "distinct (map item_id (items store_2))"
    using store_ok_store_2 by (simp add: store_ok_def)
  show ?thesis
    using d update_item_by_global_id [OF d, of 3 proxy_1 9]
      update_item_by_global_id [OF d, of 99 proxy_1 9]
    by (simp add: store_2_def item_A_def item_B_def item_C_def proxy_1_def cart_1_def)
qed

text \<open>
  C10. \<^verbatim>\<open>update\<close> gives the same outcome whatever \<^verbatim>\<open>unit_price\<close> is passed. When
  it returns, the store differs from the one before only in the quantity of the cart's
  item for the product: price, product, cart and key of that item, every other item, and
  the carts are as before. When it raises, nothing was written. It returns whenever the
  cart has exactly one item for the product.
\<close>

theorem update_changes_only_quantity:
  assumes "distinct (map item_id (items s))"
  shows "update px p q price' s = update px p q price s \<and>
    (case update px p q price s of
       (Inr _, s') \<Rightarrow>
         s' = s\<lparr>items := map (\<lambda>i. if item_cart i = cart_id (px_cart px) \<and> product i = p
                                    then i\<lparr>quantity := q\<rparr> else i) (items s)\<rparr>
     | (Inl _, s') \<Rightarrow> s' = s) \<and>
    ((\<exists>i. filter (\<lambda>i. item_cart i = cart_id (px_cart px) \<and> product i = p) (items s) = [i])
      \<longrightarrow> fst (update px p q price s) = Inr ())"
proof (intro conjI impI)
  show "update px p q price' s = update px p q price s"
    by (simp add: update_def)
next
  let ?m = "\<lambda>i. item_cart i = cart_id (px_cart px) \<and> product i = p"
  show "case update px p q price s of
       (Inr _, s') \<Rightarrow>
         s' = s\<lparr>items := map (\<lambda>i. if ?m i then i\<lparr>quantity := q\<rparr> else i) (items s)\<rparr>
     | (Inl _, s') \<Rightarrow> s' = s"
  proof (cases "objects_get Models_Item_DoesNotExist ?m (items s)")
    case (Inl e)
    then show ?thesis by (simp add: update_def)
  next
    case (Inr r)
    then have f: "filter ?m (items s) = [r]" by (rule objects_get_InrD)
    then have "r \<in> set (filter ?m (items s))" by simp
    then have r: "r \<in> set (items s)" and mr: "?m r" by auto
    have "\<And>x. x \<in> set (items s) \<Longrightarrow> ?m x \<longleftrightarrow> item_id x = item_id r"
    proof -
      fix x assume x: "x \<in> set (items s)"
      show "?m x \<longleftrightarrow> item_id x = item_id r"
      proof
        assume "?m x"
        with x have "x \<in> set (filter ?m (items s))" by simp
        with f show "item_id x = item_id r" by simp
      next
        assume "item_id x = item_id r"
        with assms x r have "x = r" by (meson distinct_map inj_onD)
        with mr show "?m x" by simp
      qed
    qed
    then have "map (\<lambda>i. if item_id i = item_id r then i\<lparr>quantity := q\<rparr> else i) (items s) =
        map (\<lambda>i. if ?m i then i\<lparr>quantity := q\<rparr> else i) (items s)"
      by (intro map_cong [OF refl]) simp
    with Inr show ?thesis
      by (simp add: update_def item_save_present [OF assms r])
  qed
next
  assume "\<exists>i. filter (\<lambda>i. item_cart i = cart_id (px_cart px) \<and> product i = p) (items s) = [i]"
  then obtain r where f: "filter (\<lambda>i. item_cart i = cart_id (px_cart px) \<and> product i = p) (items s) = [r]"
    by blast
  then have "r \<in> set (filter (\<lambda>i. item_cart i = cart_id (px_cart px) \<and> product i = p) (items s))"
    by simp
  then have r: "r \<in> set (items s)" by simp
  show "fst (update px p q price s) = Inr ()"
    by (simp add: update_def objects_get_single [OF f] item_save_present [OF assms r])
qed

theorem update_changes_only_quantity_witness:
  "distinct (map item_id (items store_2)) \<and>
   filter (\<lambda>i. item_cart i = cart_id (px_cart proxy_1) \<and> product i = product_A) (items store_2) = [item_A] \<and>
   update proxy_1 product_A 9 (Some 1000) store_2 =
     (Inr (), store_2\<lparr>items := [item_A\<lparr>quantity := 9\<rparr>, item_B, item_C]\<rparr>) \<and>
   update proxy_1 product_A 9 None store_2 = update proxy_1 product_A 9 (Some 1000) store_2"
proof -
  have d: "distinct (map item_id (items store_2))"
    using store_ok_store_2 by (simp add: store_ok_def)
  have f: "filter (\<lambda>i. item_cart i = cart_id (px_cart proxy_1) \<and> product i = product_A) (items store_2) = [item_A]"
    by (simp add: store_2_def item_A_def item_B_def item_C_def proxy_1_def cart_1_def
        product_A_def product_B_def)
  have m: "map (\<lambda>i. if item_cart i = cart_id (px_cart proxy_1) \<and> product i = product_A
                    then i\<lparr>quantity := 9\<rparr> else i) (items store_2) =
           [item_A\<lparr>quantity := 9\<rparr>, item_B, item_C]"
    by (simp add: store_2_def item_A_def item_B_def item_C_def proxy_1_def cart_1_def
        product_A_def product_B_def)
  show ?thesis
    using d f m update_changes_only_quantity [OF d, of proxy_1 product_A 9 None "Some 1000"]
    by (cases "update proxy_1 product_A 9 (Some 1000) store_2")
       (auto split: sum.splits)
qed

subsection \<open>Constructing a proxy\<close>

lemma objects_get_Inr_set:
  assumes "objects_get e cond rows = Inr r"
  shows "r \<in> set rows \<and> cond r"
proof -
  from assms have "filter cond rows = [r]" by (rule objects_get_InrD)
  then have "r \<in> set (filter cond rows)" by simp
  then show ?thesis by simp
qed

lemma init_try_Inr_set: "init_try request s = Inr found \<Longrightarrow> found \<in> set (carts s)"
  by (auto simp: init_try_def split: option.splits dest: objects_get_Inr_set)

text \<open>
  C3, as the claim states it, fails: the body of the \<^verbatim>\<open>except\<close> clause is not
  protected. A request of user 7, who has no open cart, with a supplied cart whose row is
  gone, raises \<^verbatim>\<open>Cart.DoesNotExist\<close>.
\<close>

theorem init_stale_cart_raises:
  "init (Some (user_request 7)) (Some stale_cart) 0 empty_store =
     (Inl Models_Cart_DoesNotExist, empty_store)"
  by (simp add: init_def init_with_def init_try_def refetch_def objects_get_def user_request_def
      empty_store_def)

text \<open>With neither a request nor a cart the local \<^verbatim>\<open>user\<close> is read unassigned.\<close>

lemma init_no_request_no_cart: "init None None now s = (Inl UnboundLocalError, s)"
  by (simp add: init_def init_with_def init_try_def)

text \<open>
  C3, amended. When the lookup finds a cart, the constructor returns a proxy for it. When
  the lookup fails, in whatever way (no match, several matches, an error of the
  database), the failure is caught and, provided the database answers from then on: with
  a request and no cart supplied, a new open cart of the request's user is created under
  the next key, appended to the table and recorded in the session; with a cart supplied
  whose key is the key of exactly one row, that row is fetched. Nothing is raised in these
  cases. The fallback itself is unguarded: an error of the database in it reaches the
  caller, the store untouched.
\<close>

theorem init_returns_a_cart:
  assumes "case looked_up of
             Inr _ \<Rightarrow> True
           | Inl _ \<Rightarrow>
               (case cart_arg of
                  None \<Rightarrow> request \<noteq> None
                | Some c \<Rightarrow> (\<exists>r. filter (\<lambda>r. cart_id r = cart_id c) (carts s) = [r]))"
  shows "(\<exists>px s'. init_with looked_up None request cart_arg now s = (Inr px, s') \<and>
     (case looked_up of
        Inr found \<Rightarrow> px_cart px = found \<and> px_request px = request \<and> s' = s
      | Inl _ \<Rightarrow>
          (case cart_arg of
             None \<Rightarrow>
               carts s' = carts s @ [px_cart px] \<and> cart_id (px_cart px) = next_cart_id s \<and>
               cart_user (px_cart px) = Option.bind request req_user \<and>
               checked_out (px_cart px) = False \<and>
               map_option session (px_request px) = Some (Some (next_cart_id s))
           | Some c \<Rightarrow>
               px_cart px \<in> set (carts s) \<and> cart_id (px_cart px) = cart_id c \<and>
               px_request px = request \<and> s' = s))) \<and>
     (\<forall>e f. request \<noteq> None \<or> cart_arg \<noteq> None \<longrightarrow>
        init_with (Inl e) (Some f) request cart_arg now s = (Inl f, s)) \<and>
     init request cart_arg now s = init_with (init_try request s) None request cart_arg now s"
proof (intro conjI allI impI)
  show "init request cart_arg now s = init_with (init_try request s) None request cart_arg now s"
    by (simp add: init_def)
next
  fix e f
  assume "request \<noteq> None \<or> cart_arg \<noteq> None"
  then show "init_with (Inl e) (Some f) request cart_arg now s = (Inl f, s)"
    by (auto simp: init_with_def split: option.splits)
next
  show "\<exists>px s'. init_with looked_up None request cart_arg now s = (Inr px, s') \<and>
     (case looked_up of
        Inr found \<Rightarrow> px_cart px = found \<and> px_request px = request \<and> s' = s
      | Inl _ \<Rightarrow>
          (case cart_arg of
             None \<Rightarrow>
               carts s' = carts s @ [px_cart px] \<and> cart_id (px_cart px) = next_cart_id s \<and>
               cart_user (px_cart px) = Option.bind request req_user \<and>
               checked_out (px_cart px) = False \<and>
               map_option session (px_request px) = Some (Some (next_cart_id s))
           | Some c \<Rightarrow>
               px_cart px \<in> set (carts s) \<and> cart_id (px_cart px) = cart_id c \<and>
               px_request px = request \<and> s' = s))"
  proof (cases looked_up)
    case (Inr found)
    then show ?thesis
      by (simp add: init_with_def)
  next
    case (Inl e)
    show ?thesis
    proof (cases cart_arg)
      case None
      with assms Inl obtain req where "request = Some req" by auto
      with Inl None show ?thesis
        by (simp add: init_with_def new_def cart_insert_def Let_def)
    next
      case (Some c)
      with assms Inl obtain r where r: "filter (\<lambda>r. cart_id r = cart_id c) (carts s) = [r]"
        by auto
      then have "r \<in> set (filter (\<lambda>r. cart_id r = cart_id c) (carts s))" by simp
      then have "r \<in> set (carts s)" "cart_id r = cart_id c" by auto
      with Inl Some show ?thesis
        by (simp add: init_with_def refetch_def objects_get_single [OF r])
    qed
  qed
qed

theorem init_returns_a_cart_witness:
  "init_with (Inl DatabaseError) None (Some anonymous_request) None 5 store_1 =
     (Inr \<lparr>px_request = Some (anonymous_request\<lparr>session := Some 2\<rparr>),
           px_cart = \<lparr>cart_id = 2, creation_date = 5, cart_user = None, checked_out = False\<rparr>\<rparr>,
      store_1\<lparr>carts := [cart_1, \<lparr>cart_id = 2, creation_date = 5, cart_user = None,
                                   checked_out = False\<rparr>],
              next_cart_id := 3\<rparr>) \<and>
   init_try None store_1 = Inl UnboundLocalError \<and>
   filter (\<lambda>r. cart_id r = cart_id copy_of_cart_1) (carts store_1) = [cart_1] \<and>
   (\<exists>px. init None (Some copy_of_cart_1) 0 store_1 = (Inr px, store_1) \<and> px_cart px = cart_1) \<and>
   init_with (Inl Models_Cart_DoesNotExist) (Some DatabaseError) (Some anonymous_request) None 5
     store_1 = (Inl DatabaseError, store_1)"
proof -
  have f: "filter (\<lambda>r. cart_id r = cart_id copy_of_cart_1) (carts store_1) = [cart_1]"
    by (simp add: store_1_def cart_1_def copy_of_cart_1_def)
  have t: "init_try None store_1 = Inl UnboundLocalError"
    by (simp add: init_try_def)
  have first: "init_with (Inl DatabaseError) None (Some anonymous_request) None 5 store_1 =
     (Inr \<lparr>px_request = Some (anonymous_request\<lparr>session := Some 2\<rparr>),
           px_cart = \<lparr>cart_id = 2, creation_date = 5, cart_user = None, checked_out = False\<rparr>\<rparr>,
      store_1\<lparr>carts := [cart_1, \<lparr>cart_id = 2, creation_date = 5, cart_user = None,
                                   checked_out = False\<rparr>],
              next_cart_id := 3\<rparr>)"
  proof -
    from init_returns_a_cart [where looked_up = "Inl DatabaseError" and request = "Some anonymous_request"
        and cart_arg = None and s = store_1 and now = 5]
    obtain px s' where r: "init_with (Inl DatabaseError) None (Some anonymous_request) None 5 store_1 =
        (Inr px, s')" and "cart_id (px_cart px) = next_cart_id store_1"
      by auto
    then show ?thesis
      by (simp add: init_with_def new_def cart_insert_def Let_def store_1_def anonymous_request_def)
  qed
  have "\<exists>px s'. init_with (init_try None store_1) None None (Some copy_of_cart_1) 0 store_1 = (Inr px, s') \<and>
      px_cart px \<in> set (carts store_1) \<and> cart_id (px_cart px) = 1 \<and> s' = store_1"
    using init_returns_a_cart [where looked_up = "init_try None store_1" and request = None
        and cart_arg = "Some copy_of_cart_1" and s = store_1 and now = 0] f t
    by (auto simp: copy_of_cart_1_def)
  then have second: "\<exists>px. init None (Some copy_of_cart_1) 0 store_1 = (Inr px, store_1) \<and>
         px_cart px = cart_1"
    by (auto simp: store_1_def init_def)
  have third: "init_with (Inl Models_Cart_DoesNotExist) (Some DatabaseError)
      (Some anonymous_request) None 5 store_1 = (Inl DatabaseError, store_1)"
    using init_returns_a_cart [where looked_up = "Inr cart_1" and request = "Some anonymous_request"
        and cart_arg = None and s = store_1 and now = 5]
    by simp
  show ?thesis
    using first t f second third by simp
qed

subsection \<open>Discarding the old cart of a user\<close>

text \<open>What the lookup by the user alone makes of the carts the user owns.\<close>

lemma delete_old_cart_one:
  assumes "filter (\<lambda>r. cart_user r = Some u) (carts s) = [c]"
  shows "delete_old_cart px u s = (Inr (), cart_delete c s)"
  by (simp add: delete_old_cart_def objects_get_single [OF assms])

lemma delete_old_cart_none:
  assumes "filter (\<lambda>r. cart_user r = Some u) (carts s) = []"
  shows "delete_old_cart px u s = (Inr (), s)"
  by (simp add: delete_old_cart_def objects_get_Nil [OF assms])

lemma delete_old_cart_several:
  assumes "1 < length (filter (\<lambda>r. cart_user r = Some u) (carts s))"
  shows "delete_old_cart px u s = (Inl MultipleObjectsReturned, s)"
proof -
  from assms obtain a b rest where "filter (\<lambda>r. cart_user r = Some u) (carts s) = a # b # rest"
    by (cases "filter (\<lambda>r. cart_user r = Some u) (carts s)" rule: list.exhaust)
       (auto simp: neq_Nil_conv)
  then show ?thesis
    by (simp add: delete_old_cart_def objects_get_def)
qed

text \<open>
  A history of the system: user 7 gets a cart and checks it out, comes back and gets a
  second cart, and an anonymous visitor gets a third and puts a product in it.
\<close>

lemma run_login_history:
  "run login_history initial_system = \<lparr>db = store_7, the_proxy = Some proxy_3\<rparr>"
  by (simp add: run_def login_history_def initial_system_def empty_store_def step_def
      method_step_def init_def init_with_def init_try_def new_def cart_insert_def objects_get_def
      checkout_def cart_save_def add_def item_insert_def Let_def
      user_request_def anonymous_request_def store_7_def proxy_3_def
      order_7_def open_7_def anonymous_3_def item_3_def)

text \<open>
  C4. \<^verbatim>\<open>delete_old_cart\<close> is to delete the user's open cart and never to raise. It
  looks the cart up by the user alone, not by \<^verbatim>\<open>checked_out=False\<close> as the
  constructor and \<^verbatim>\<open>get_last_cart\<close> do: for user 7, who owns a checked-out cart and
  an open one, the lookup raises \<^verbatim>\<open>MultipleObjectsReturned\<close>, which is not caught,
  and the open cart stays.
\<close>

theorem delete_old_cart_raises:
  "delete_old_cart proxy_3 7 store_7 = (Inl MultipleObjectsReturned, store_7)"
  by (simp add: delete_old_cart_def objects_get_def store_7_def order_7_def open_7_def
      anonymous_3_def)

text \<open>A user who owns only a checked-out cart loses it.\<close>

lemma delete_old_cart_deletes_order:
  "delete_old_cart proxy_3 7 (store_7\<lparr>carts := [order_7, anonymous_3]\<rparr>) =
     (Inr (), store_7\<lparr>carts := [anonymous_3]\<rparr>)"
  by (simp add: delete_old_cart_def objects_get_def cart_delete_def store_7_def order_7_def
      anonymous_3_def item_3_def)

text \<open>With no cart of the new owner and no cart under the key, \<^verbatim>\<open>replace\<close> raises \<^verbatim>\<open>CartDoesNotExist\<close>.\<close>

lemma replace_cart_absent:
  assumes "filter (\<lambda>r. cart_user r = Some u) (carts s) = []"
    and "filter (\<lambda>r. cart_id r = k) (carts s) = []"
  shows "replace px k u s = (Inl CartDoesNotExist, s)"
  by (simp add: replace_def delete_old_cart_none [OF assms(1)] objects_get_Nil [OF assms(2)])

text \<open>
  C5. \<^verbatim>\<open>replace\<close> is to delete the new owner's open cart and hand the cart with the
  key over. It starts with \<^verbatim>\<open>delete_old_cart\<close>, and for user 7 the exception of that
  lookup goes through \<^verbatim>\<open>replace\<close> uncaught: nothing is deleted and cart 3 keeps no
  owner.
\<close>

theorem replace_raises:
  "replace proxy_3 3 7 store_7 = (Inl MultipleObjectsReturned, store_7)"
  by (simp add: replace_def delete_old_cart_def objects_get_def store_7_def order_7_def
      open_7_def anonymous_3_def)

subsection \<open>The store stays well-formed\<close>

lemma map_key_replace:
  "map key (map (\<lambda>r. if key r = key c then c else r) rows) = map key rows"
  by (induction rows) auto

lemma map_key_replace_comp:
  "map (key \<circ> (\<lambda>r. if key r = key c then c else r)) rows = map key rows"
  by (induction rows) auto

lemma store_ok_cart_insert: "store_ok s \<Longrightarrow> store_ok (snd (cart_insert now u s))"
  by (auto simp: store_ok_def cart_insert_def Let_def less_Suc_eq)

lemma store_ok_item_insert: "store_ok s \<Longrightarrow> store_ok (snd (item_insert cid p price q s))"
  by (auto simp: store_ok_def item_insert_def Let_def less_Suc_eq)

lemma cart_save_cases:
  obtains
    (update) "\<exists>r \<in> set (carts s). cart_id r = cart_id c"
      "cart_save c s = Inr (s\<lparr>carts := map (\<lambda>r. if cart_id r = cart_id c then c else r) (carts s)\<rparr>)"
  | (insert) "\<forall>r \<in> set (carts s). cart_id r \<noteq> cart_id c"
      "cart_save c s = Inr (s\<lparr>carts := carts s @ [c]\<rparr>)"
  by (cases "\<exists>r \<in> set (carts s). cart_id r = cart_id c") (auto simp: cart_save_def)

lemma item_save_cases:
  obtains
    (update) "\<exists>r \<in> set (items s). item_id r = item_id i"
      "item_save i s = Inr (s\<lparr>items := map (\<lambda>r. if item_id r = item_id i then i else r) (items s)\<rparr>)"
  | (insert) "\<forall>r \<in> set (items s). item_id r \<noteq> item_id i"
      "item_save i s = Inr (s\<lparr>items := items s @ [i]\<rparr>)"
  by (cases "\<exists>r \<in> set (items s). item_id r = item_id i") (auto simp: item_save_def)

lemma store_ok_cart_save:
  assumes "store_ok s" and "cart_id c < next_cart_id s" and "cart_save c s = Inr s'"
  shows "store_ok s'"
proof (cases c s rule: cart_save_cases)
  case update
  with assms show ?thesis
    by (auto simp: store_ok_def map_key_replace_comp)
next
  case insert
  with assms show ?thesis
    by (fastforce simp: store_ok_def)
qed

lemma store_ok_item_save:
  assumes "store_ok s" and "item_id i < next_item_id s" and "item_save i s = Inr s'"
  shows "store_ok s'"
proof (cases i s rule: item_save_cases)
  case update
  with assms show ?thesis
    by (auto simp: store_ok_def map_key_replace_comp)
next
  case insert
  with assms show ?thesis
    by (fastforce simp: store_ok_def)
qed

lemma item_save_carts:
  assumes "item_save i s = Inr s'"
  shows "carts s' = carts s \<and> next_cart_id s' = next_cart_id s"
  using assms by (cases i s rule: item_save_cases) auto

lemma store_ok_cart_delete: "store_ok s \<Longrightarrow> store_ok (cart_delete c s)"
  by (auto simp: store_ok_def cart_delete_def distinct_map_filter)

lemma store_ok_item_delete: "store_ok s \<Longrightarrow> store_ok (item_delete i s)"
  by (auto simp: store_ok_def item_delete_def distinct_map_filter)

lemma store_ok_fold_item_delete: "store_ok s \<Longrightarrow> store_ok (fold item_delete xs s)"
  by (induction xs arbitrary: s) (auto simp: store_ok_item_delete)

lemma carts_item_delete: "carts (item_delete i s) = carts s"
  and next_cart_id_item_delete: "next_cart_id (item_delete i s) = next_cart_id s"
  by (simp_all add: item_delete_def)

lemma carts_fold_item_delete: "carts (fold item_delete xs s) = carts s"
  by (induction xs arbitrary: s) (auto simp: carts_item_delete)

lemma next_cart_id_fold_item_delete:
  "next_cart_id (fold item_delete xs s) = next_cart_id s"
  by (induction xs arbitrary: s) (auto simp: next_cart_id_item_delete)

lemma add_items_only:
  assumes "store_ok s"
  shows "store_ok (snd (add px p price q s)) \<and> same_carts s (snd (add px p price q s))"
proof (cases "objects_get Models_Item_DoesNotExist
    (\<lambda>i. item_cart i = cart_id (px_cart px) \<and> product i = p) (items s)")
  case (Inl e)
  with assms show ?thesis
    using store_ok_item_insert [OF assms, of "cart_id (px_cart px)" p price q]
    by (auto simp: add_def same_carts_def item_insert_def Let_def)
next
  case (Inr found)
  then have "found \<in> set (items s)" by (auto dest: objects_get_Inr_set)
  with assms have lt: "item_id (found\<lparr>quantity := quantity found + py_int q\<rparr>) < next_item_id s"
    by (auto simp: store_ok_def)
  obtain s' where s': "item_save (found\<lparr>quantity := quantity found + py_int q\<rparr>) s = Inr s'"
    by (cases "found\<lparr>quantity := quantity found + py_int q\<rparr>" s rule: item_save_cases) auto
  from Inr s' store_ok_item_save [OF assms lt s'] item_save_carts [OF s'] show ?thesis
    by (simp add: add_def same_carts_def Let_def)
qed

lemma remove_item_items_only:
  assumes "store_ok s"
  shows "store_ok (snd (remove_item px iid s)) \<and> same_carts s (snd (remove_item px iid s))"
  using assms
  by (auto simp: remove_item_def item_set_filter_delete_def same_carts_def store_ok_def
      distinct_map_filter)

lemma set_quantity_items_only:
  assumes "store_ok s" and "found \<in> set (items s)"
  shows "\<exists>s'. item_save (found\<lparr>quantity := q\<rparr>) s = Inr s' \<and> store_ok s' \<and> same_carts s s'"
proof -
  from assms have lt: "item_id (found\<lparr>quantity := q\<rparr>) < next_item_id s"
    by (auto simp: store_ok_def)
  obtain s' where s': "item_save (found\<lparr>quantity := q\<rparr>) s = Inr s'"
    by (cases "found\<lparr>quantity := q\<rparr>" s rule: item_save_cases) auto
  from s' store_ok_item_save [OF assms(1) lt s'] item_save_carts [OF s'] show ?thesis
    by (simp add: same_carts_def)
qed

lemma update_item_items_only:
  assumes "store_ok s"
  shows "store_ok (snd (update_item px pk q s)) \<and> same_carts s (snd (update_item px pk q s))"
proof (cases "objects_get Models_Item_DoesNotExist (\<lambda>i. item_id i = pk) (items s)")
  case (Inl e)
  with assms show ?thesis by (simp add: update_item_def same_carts_def)
next
  case (Inr found)
  then have "found \<in> set (items s)" by (auto dest: objects_get_Inr_set)
  from set_quantity_items_only [OF assms this, of q] Inr show ?thesis
    by (auto simp: update_item_def)
qed

lemma update_items_only:
  assumes "store_ok s"
  shows "store_ok (snd (update px p q price s)) \<and> same_carts s (snd (update px p q price s))"
proof (cases "objects_get Models_Item_DoesNotExist
    (\<lambda>i. item_cart i = cart_id (px_cart px) \<and> product i = p) (items s)")
  case (Inl e)
  with assms show ?thesis by (simp add: update_def same_carts_def)
next
  case (Inr found)
  then have "found \<in> set (items s)" by (auto dest: objects_get_Inr_set)
  from set_quantity_items_only [OF assms this, of q] Inr show ?thesis
    by (auto simp: update_def)
qed

lemma clear_items_only:
  assumes "store_ok s"
  shows "store_ok (clear px s) \<and> same_carts s (clear px s)"
  using assms
  by (simp add: clear_def same_carts_def store_ok_fold_item_delete carts_fold_item_delete
      next_cart_id_fold_item_delete)

lemma same_carts_current: "same_carts s s' \<Longrightarrow> cart_current c s \<Longrightarrow> cart_current c s'"
  by (simp add: same_carts_def cart_current_def)

lemma same_carts_sealed: "same_carts s s' \<Longrightarrow> store_sealed cid s \<Longrightarrow> store_sealed cid s'"
  by (simp add: same_carts_def store_sealed_def)

text \<open>Writes to the cart table.\<close>

lemma row_current:
  assumes "store_ok s" and "r \<in> set (carts s)"
  shows "cart_current r s"
proof -
  from assms have "cart_id r < next_cart_id s"
    by (simp add: store_ok_def)
  moreover have "checked_out r" if "x \<in> set (carts s)" "cart_id x = cart_id r" "checked_out x" for x
  proof -
    from assms that have "x = r"
      by (metis distinct_map inj_onD store_ok_def)
    with that show ?thesis by simp
  qed
  ultimately show ?thesis by (auto simp: cart_current_def)
qed

lemma row_sealed:
  assumes "store_sealed cid s" and "r \<in> set (carts s)"
  shows "cart_id r = cid \<longrightarrow> checked_out r"
  using assms by (simp add: store_sealed_def)

lemma cart_insert_current:
  assumes "cart_insert now u s = (c, s')"
  shows "store_ok s \<Longrightarrow> cart_current c s'" and "cart_current d s \<Longrightarrow> cart_current d s'"
proof -
  from assms have c: "cart_id c = next_cart_id s" "next_cart_id s' = Suc (next_cart_id s)"
    "carts s' = carts s @ [c]"
    by (auto simp: cart_insert_def Let_def)
  show "cart_current c s'" if "store_ok s"
  proof -
    from that have "\<forall>r \<in> set (carts s). cart_id r \<noteq> cart_id c"
      by (fastforce simp: store_ok_def c)
    then show ?thesis
      by (auto simp: cart_current_def c)
  qed
  show "cart_current d s'" if "cart_current d s"
    using that by (auto simp: cart_current_def c)
qed

lemma cart_insert_sealed:
  assumes "cart_insert now u s = (c, s')" and "store_sealed cid s"
  shows "store_sealed cid s'" and "cart_id c \<noteq> cid"
  using assms by (auto simp: cart_insert_def store_sealed_def Let_def)

lemma cart_save_current_other:
  assumes "cart_save c s = Inr s'" and "cart_current d s"
    and "cart_id d = cart_id c \<Longrightarrow> checked_out c \<Longrightarrow> checked_out d"
  shows "cart_current d s'"
  using assms by (cases c s rule: cart_save_cases) (auto simp: cart_current_def)

lemma cart_save_sealed:
  assumes "cart_save c s = Inr s'" and "store_sealed cid s"
    and "cart_id c = cid \<Longrightarrow> checked_out c"
  shows "store_sealed cid s'"
  using assms by (cases c s rule: cart_save_cases) (auto simp: store_sealed_def)

lemma cart_save_total: "\<exists>s'. cart_save c s = Inr s'"
  by (cases c s rule: cart_save_cases) auto

lemma cart_delete_current: "cart_current d s \<Longrightarrow> cart_current d (cart_delete c s)"
  by (auto simp: cart_current_def cart_delete_def)

lemma cart_delete_sealed: "store_sealed cid s \<Longrightarrow> store_sealed cid (cart_delete c s)"
  by (auto simp: store_sealed_def cart_delete_def)

lemma keeps_refl: "keeps d cid s s"
  by (simp add: keeps_def)

lemma keeps_trans: "keeps d cid s s1 \<Longrightarrow> keeps d cid s1 s2 \<Longrightarrow> keeps d cid s s2"
  by (auto simp: keeps_def)

lemma items_only_keeps:
  assumes "store_ok s \<Longrightarrow> store_ok s' \<and> same_carts s s'"
  shows "keeps d cid s s'"
  using assms by (auto simp: keeps_def dest: same_carts_current same_carts_sealed)

lemma delete_old_cart_keeps: "keeps d cid s (snd (delete_old_cart px u s))"
  by (auto simp: keeps_def delete_old_cart_def store_ok_cart_delete cart_delete_current
      cart_delete_sealed split: sum.splits)

lemma save_row_keeps:
  assumes found: "found \<in> set (carts s)"
    and c: "cart_id c = cart_id found" "checked_out c = checked_out found"
    and save: "cart_save c s = Inr s'"
  shows "keeps d cid s s'"
  unfolding keeps_def
proof (intro impI conjI)
  assume ok: "store_ok s"
  with found c have "cart_id c < next_cart_id s"
    by (simp add: store_ok_def)
  from store_ok_cart_save [OF ok this save] show "store_ok s'" .
next
  assume "store_ok s" and d: "cart_current d s"
  show "cart_current d s'"
  proof (rule cart_save_current_other [OF save d])
    assume "cart_id d = cart_id c" and "checked_out c"
    with found c d show "checked_out d"
      by (auto simp: cart_current_def)
  qed
next
  assume "store_ok s" and sealed: "store_sealed cid s"
  show "store_sealed cid s'"
  proof (rule cart_save_sealed [OF save sealed])
    assume "cart_id c = cid"
    with found c sealed show "checked_out c"
      by (auto simp: store_sealed_def)
  qed
qed

lemma replace_keeps: "keeps d cid s (snd (replace px k u s))"
proof -
  define s1 where "s1 = snd (delete_old_cart px u s)"
  have k1: "keeps d cid s s1"
    unfolding s1_def by (rule delete_old_cart_keeps)
  have "keeps d cid s1 (snd (replace px k u s))"
  proof (cases "fst (delete_old_cart px u s)")
    case (Inl e)
    then show ?thesis
      by (cases "delete_old_cart px u s") (simp add: replace_def s1_def keeps_refl)
  next
    case (Inr x)
    then have d: "delete_old_cart px u s = (Inr x, s1)"
      by (cases "delete_old_cart px u s") (simp add: s1_def)
    show ?thesis
    proof (cases "objects_get Models_Cart_DoesNotExist (\<lambda>r. cart_id r = k) (carts s1)")
      case (Inl e)
      with d show ?thesis by (simp add: replace_def keeps_refl)
    next
      case get: (Inr found)
      then have found: "found \<in> set (carts s1)"
        by (auto dest: objects_get_Inr_set)
      obtain s2 where save: "cart_save (found\<lparr>cart_user := Some u\<rparr>) s1 = Inr s2"
        using cart_save_total by blast
      have "keeps d cid s1 s2"
        by (rule save_row_keeps [OF found _ _ save]) simp_all
      with d get save show ?thesis by (simp add: replace_def)
    qed
  qed
  with k1 show ?thesis by (rule keeps_trans)
qed

text \<open>A method that saves the proxy's own cart object.\<close>

lemma save_own_cart:
  assumes save: "cart_save c s = Inr s'"
    and c: "cart_id c = cart_id (px_cart px)" "checked_out (px_cart px) \<Longrightarrow> checked_out c"
    and ok: "store_ok s" and cur: "cart_current (px_cart px) s"
  shows "store_ok s' \<and> cart_current c s' \<and>
     (store_sealed cid s \<and> proxy_sealed cid px \<longrightarrow> store_sealed cid s' \<and> proxy_sealed cid (px\<lparr>px_cart := c\<rparr>))"
proof (intro conjI impI)
  from cur c have lt: "cart_id c < next_cart_id s"
    by (simp add: cart_current_def)
  from store_ok_cart_save [OF ok lt save] show "store_ok s'" .
  from cur c have "cart_current c s"
    by (auto simp: cart_current_def)
  with save show "cart_current c s'"
    by (rule cart_save_current_other)
next
  assume sealed: "store_sealed cid s \<and> proxy_sealed cid px"
  with c show "proxy_sealed cid (px\<lparr>px_cart := c\<rparr>)"
    by (auto simp: proxy_sealed_def)
  from sealed c show "store_sealed cid s'"
    by (intro cart_save_sealed [OF save]) (auto simp: proxy_sealed_def)
qed

lemma get_last_cart_keeps:
  assumes ok: "store_ok s" and cur: "cart_current (px_cart px) s"
    and res: "snd (get_last_cart px u s) = (px', s')"
  shows "store_ok s' \<and> cart_current (px_cart px') s' \<and>
     (store_sealed cid s \<and> proxy_sealed cid px \<longrightarrow> store_sealed cid s' \<and> proxy_sealed cid px')"
proof (cases "objects_get Models_Cart_DoesNotExist
    (\<lambda>r. cart_user r = Some u \<and> checked_out r = False) (carts s)")
  case (Inr found)
  with res ok cur show ?thesis
    by (auto simp: get_last_cart_def)
next
  case (Inl e)
  show ?thesis
  proof (cases "e = Models_Cart_DoesNotExist")
    case False
    with Inl res ok cur show ?thesis
      by (auto simp: get_last_cart_def)
  next
    case True
    let ?c = "(px_cart px)\<lparr>cart_user := Some u\<rparr>"
    obtain s2 where save: "cart_save ?c s = Inr s2"
      using cart_save_total by blast
    with Inl True res have eq: "px' = px\<lparr>px_cart := ?c\<rparr>" "s' = s2"
      by (auto simp: get_last_cart_def Let_def)
    from save_own_cart [OF save _ _ ok cur, of cid] show ?thesis
      unfolding eq by simp
  qed
qed

lemma checkout_keeps:
  assumes ok: "store_ok s" and cur: "cart_current (px_cart px) s"
    and res: "snd (checkout px s) = (px', s')"
  shows "store_ok s' \<and> cart_current (px_cart px') s' \<and>
     (store_sealed cid s \<and> proxy_sealed cid px \<longrightarrow> store_sealed cid s' \<and> proxy_sealed cid px')"
proof -
  let ?c = "(px_cart px)\<lparr>checked_out := True\<rparr>"
  obtain s2 where save: "cart_save ?c s = Inr s2"
    using cart_save_total by blast
  with res have eq: "px' = px\<lparr>px_cart := ?c\<rparr>" "s' = s2"
    by (auto simp: checkout_def Let_def)
  from save_own_cart [OF save _ _ ok cur, of cid] show ?thesis
    unfolding eq by simp
qed

text \<open>The constructor.\<close>

lemma init_cases:
  assumes "init request cart_arg now s = (res, s')"
  obtains
    (raised) e where "res = Inl e" "s' = s"
  | (row) px where "res = Inr px" "s' = s" "px_cart px \<in> set (carts s)"
  | (created) px u where "res = Inr px" "cart_insert now u s = (px_cart px, s')"
proof (cases "init_try request s")
  case (Inr found)
  with assms have "res = Inr \<lparr>px_request = request, px_cart = found\<rparr>" "s' = s"
    by (auto simp: init_def init_with_def)
  moreover from Inr have "found \<in> set (carts s)" by (rule init_try_Inr_set)
  ultimately show ?thesis by (intro row) auto
next
  case (Inl e)
  show ?thesis
  proof (cases cart_arg)
    case None
    show ?thesis
    proof (cases request)
      case none: None
      with Inl None assms show ?thesis
        by (intro raised) (auto simp: init_def init_with_def)
    next
      case (Some req)
      obtain c s1 where ins: "cart_insert now (req_user req) s = (c, s1)"
        by (cases "cart_insert now (req_user req) s")
      with Inl None Some assms show ?thesis
        by (intro created [where u = "req_user req"]) (auto simp: init_def init_with_def new_def)
    qed
  next
    case (Some c)
    show ?thesis
    proof (cases "objects_get Models_Cart_DoesNotExist (\<lambda>r. cart_id r = cart_id c) (carts s)")
      case get: (Inl e')
      with Inl Some assms show ?thesis
        by (intro raised) (auto simp: init_def init_with_def refetch_def)
    next
      case get: (Inr r)
      then have "r \<in> set (carts s)" by (auto dest: objects_get_Inr_set)
      with get Inl Some assms show ?thesis
        by (intro row) (auto simp: init_def init_with_def refetch_def)
    qed
  qed
qed

lemma init_keeps:
  assumes ok: "store_ok s" and res: "init request cart_arg now s = (r, s')"
  shows "store_ok s' \<and> (cart_current d s \<longrightarrow> cart_current d s') \<and>
     (store_sealed cid s \<longrightarrow> store_sealed cid s') \<and>
     (\<forall>px. r = Inr px \<longrightarrow>
        cart_current (px_cart px) s' \<and> (store_sealed cid s \<longrightarrow> proxy_sealed cid px))"
  using res
proof (cases rule: init_cases)
  case (raised e)
  with ok show ?thesis by simp
next
  case (row px)
  with ok show ?thesis
    by (auto simp: row_current proxy_sealed_def dest: row_sealed)
next
  case (created px u)
  from ok have "store_ok (snd (cart_insert now u s))"
    by (rule store_ok_cart_insert)
  with created ok show ?thesis
    using cart_insert_current [OF created(2)] cart_insert_sealed [OF created(2)]
    by (auto simp: proxy_sealed_def)
qed

subsection \<open>Checked out is terminal\<close>

lemma method_step_keeps:
  assumes ok: "store_ok s" and cur: "cart_current (px_cart px) s"
    and res: "method_step op px s = (px', s')"
  shows "store_ok s' \<and> cart_current (px_cart px') s' \<and>
     (store_sealed cid s \<and> proxy_sealed cid px \<longrightarrow> store_sealed cid s' \<and> proxy_sealed cid px')"
proof -
  have bystander: ?thesis if "px' = px" and "keeps (px_cart px) cid s s'"
    using that ok cur by (auto simp: keeps_def)
  show ?thesis
  proof (cases op)
    case (Op_init request cart_arg now)
    obtain r s1 where i: "init request cart_arg now s = (r, s1)"
      by (cases "init request cart_arg now s")
    from init_keeps [OF ok i, of "px_cart px" cid] i res Op_init cur show ?thesis
      by (cases r) (auto simp: method_step_def)
  next
    case (Op_add p price q)
    with res add_items_only [OF ok, of px p price q] show ?thesis
      by (intro bystander items_only_keeps) (auto simp: method_step_def)
  next
    case (Op_remove_item iid)
    with res remove_item_items_only [OF ok, of px iid] show ?thesis
      by (intro bystander items_only_keeps) (auto simp: method_step_def)
  next
    case (Op_update_item pk q)
    with res update_item_items_only [OF ok, of px pk q] show ?thesis
      by (intro bystander items_only_keeps) (auto simp: method_step_def)
  next
    case (Op_update p q price)
    with res update_items_only [OF ok, of px p q price] show ?thesis
      by (intro bystander items_only_keeps) (auto simp: method_step_def)
  next
    case (Op_delete_old_cart u)
    with res delete_old_cart_keeps [of "px_cart px" cid s px u] show ?thesis
      by (intro bystander) (auto simp: method_step_def)
  next
    case (Op_replace k u)
    with res replace_keeps [of "px_cart px" cid s px k u] show ?thesis
      by (intro bystander) (auto simp: method_step_def)
  next
    case Op_clear
    with res clear_items_only [OF ok, of px] show ?thesis
      by (intro bystander items_only_keeps) (auto simp: method_step_def)
  next
    case (Op_get_last_cart u)
    with res have "snd (get_last_cart px u s) = (px', s')"
      by (simp add: method_step_def)
    from get_last_cart_keeps [OF ok cur this] show ?thesis .
  next
    case Op_checkout
    with res have "snd (checkout px s) = (px', s')"
      by (simp add: method_step_def)
    from checkout_keeps [OF ok cur this] show ?thesis .
  qed
qed

lemma step_keeps:
  assumes "system_ok \<sigma>"
  shows "system_ok (step op \<sigma>) \<and> (sealed cid \<sigma> \<longrightarrow> sealed cid (step op \<sigma>))"
proof (cases "the_proxy \<sigma>")
  case (Some px)
  obtain px' s' where m: "method_step op px (db \<sigma>) = (px', s')"
    by (cases "method_step op px (db \<sigma>)")
  from assms Some have "store_ok (db \<sigma>)" "cart_current (px_cart px) (db \<sigma>)"
    by (simp_all add: system_ok_def)
  from method_step_keeps [OF this m, of cid] Some m show ?thesis
    by (simp add: step_def system_ok_def sealed_def)
next
  case None
  show ?thesis
  proof (cases op)
    case (Op_init request cart_arg now)
    obtain r s1 where i: "init request cart_arg now (db \<sigma>) = (r, s1)"
      by (cases "init request cart_arg now (db \<sigma>)")
    from assms have ok: "store_ok (db \<sigma>)"
      by (simp add: system_ok_def)
    from init_keeps [OF ok i, of undefined cid] None Op_init i show ?thesis
      by (cases r) (auto simp: step_def system_ok_def sealed_def)
  qed (use assms None in \<open>simp_all add: step_def\<close>)
qed

lemma run_keeps:
  assumes "system_ok \<sigma>"
  shows "system_ok (run ops \<sigma>) \<and> (sealed cid \<sigma> \<longrightarrow> sealed cid (run ops \<sigma>))"
  using assms
proof (induction ops arbitrary: \<sigma>)
  case Nil
  then show ?case by (simp add: run_def)
next
  case (Cons op ops)
  from step_keeps [OF Cons.prems, of op cid] Cons.IH [of "step op \<sigma>"] show ?case
    by (simp add: run_def)
qed

lemma system_ok_initial: "system_ok initial_system"
  by (simp add: system_ok_def initial_system_def store_ok_def empty_store_def)

lemma checked_out_sealed:
  assumes "system_ok \<sigma>" and "cart_checked_out cid (db \<sigma>)"
  shows "sealed cid \<sigma>"
proof -
  from assms(2) obtain r where r: "r \<in> set (carts (db \<sigma>))" "cart_id r = cid" "checked_out r"
    by (auto simp: cart_checked_out_def)
  from assms(1) have ok: "store_ok (db \<sigma>)"
    by (simp add: system_ok_def)
  have "checked_out x" if "x \<in> set (carts (db \<sigma>))" "cart_id x = cid" for x
  proof -
    from ok r that have "x = r"
      by (metis distinct_map inj_onD store_ok_def)
    with r show ?thesis by simp
  qed
  moreover from ok r have "cid < next_cart_id (db \<sigma>)"
    by (auto simp: store_ok_def)
  ultimately have "store_sealed cid (db \<sigma>)"
    by (simp add: store_sealed_def)
  moreover have "proxy_sealed cid px" if "the_proxy \<sigma> = Some px" for px
    using assms(1) that r by (auto simp: system_ok_def cart_current_def proxy_sealed_def)
  ultimately show ?thesis
    by (auto simp: sealed_def split: option.splits)
qed

lemma sealed_not_open: "sealed cid \<sigma> \<Longrightarrow> \<not> cart_open cid (db \<sigma>)"
  by (auto simp: sealed_def store_sealed_def cart_open_def)

text \<open>The same with several proxies alive.\<close>

lemma cart_insert_fields:
  assumes "cart_insert now u s = (c, s')"
  shows "cart_id c = next_cart_id s" and "next_cart_id s' = Suc (next_cart_id s)"
  using assms by (auto simp: cart_insert_def Let_def)

lemma next_cart_id_cart_save:
  "cart_save c s = Inr s' \<Longrightarrow> next_cart_id s' = next_cart_id s"
  by (cases c s rule: cart_save_cases) auto

lemma same_carts_next: "same_carts s s' \<Longrightarrow> next_cart_id s' = next_cart_id s"
  by (simp add: same_carts_def)

lemma delete_old_cart_next:
  "next_cart_id (snd (delete_old_cart px u s)) = next_cart_id s"
  by (auto simp: delete_old_cart_def cart_delete_def split: sum.splits)

lemma replace_next: "next_cart_id (snd (replace px k u s)) = next_cart_id s"
proof -
  obtain r s1 where d: "delete_old_cart px u s = (r, s1)"
    by (cases "delete_old_cart px u s")
  with delete_old_cart_next [of px u s] have n: "next_cart_id s1 = next_cart_id s"
    by simp
  show ?thesis
  proof (cases r)
    case (Inl e)
    with d n show ?thesis by (simp add: replace_def)
  next
    case (Inr x)
    show ?thesis
    proof (cases "objects_get Models_Cart_DoesNotExist (\<lambda>r. cart_id r = k) (carts s1)")
      case (Inl e)
      with d n Inr show ?thesis by (simp add: replace_def)
    next
      case get: (Inr found)
      obtain s2 where save: "cart_save (found\<lparr>cart_user := Some u\<rparr>) s1 = Inr s2"
        using cart_save_total by blast
      with d n Inr get next_cart_id_cart_save [OF save] show ?thesis
        by (simp add: replace_def)
    qed
  qed
qed

text \<open>A method that saves the proxy's own cart object, whatever the object says.\<close>

lemma save_copy:
  assumes save: "cart_save c s = Inr s'"
    and ok: "store_ok s" and lt: "cart_id c < next_cart_id s"
  shows "store_ok s' \<and> next_cart_id s' = next_cart_id s \<and>
     (store_sealed cid s \<and> (cart_id c = cid \<longrightarrow> checked_out c) \<longrightarrow> store_sealed cid s')"
proof (intro conjI impI)
  from store_ok_cart_save [OF ok lt save] show "store_ok s'" .
  from save show "next_cart_id s' = next_cart_id s" by (rule next_cart_id_cart_save)
next
  assume "store_sealed cid s \<and> (cart_id c = cid \<longrightarrow> checked_out c)"
  then show "store_sealed cid s'"
    by (intro cart_save_sealed [OF save]) auto
qed

lemma method_step_world:
  assumes ok: "store_ok s" and lt: "cart_id (px_cart px) < next_cart_id s"
    and res: "method_step op px s = (px', s')"
  shows "store_ok s' \<and> next_cart_id s \<le> next_cart_id s' \<and>
     cart_id (px_cart px') < next_cart_id s' \<and>
     (store_sealed cid s \<and> ((\<exists>u. op = Op_get_last_cart u) \<longrightarrow> proxy_sealed cid px)
        \<longrightarrow> store_sealed cid s')"
proof -
  have items_only: ?thesis
    if "px' = px" and "store_ok s' \<and> same_carts s s'"
    using that lt by (auto simp: same_carts_def store_sealed_def)
  have carts_only: ?thesis
    if "px' = px" and "keeps (px_cart px) cid s s'" and "next_cart_id s' = next_cart_id s"
    using that ok lt by (auto simp: keeps_def)
  show ?thesis
  proof (cases op)
    case (Op_init request cart_arg now)
    obtain r s1 where i: "init request cart_arg now s = (r, s1)"
      by (cases "init request cart_arg now s")
    from i show ?thesis
    proof (cases rule: init_cases)
      case (raised e)
      with i res Op_init ok lt show ?thesis
        by (simp add: method_step_def)
    next
      case (row p)
      with ok have "cart_id (px_cart p) < next_cart_id s"
        by (simp add: store_ok_def)
      with row i res Op_init ok show ?thesis
        by (simp add: method_step_def)
    next
      case (created p u)
      from ok have "store_ok (snd (cart_insert now u s))"
        by (rule store_ok_cart_insert)
      moreover note cart_insert_fields [OF created(2)]
      moreover note cart_insert_sealed(1) [OF created(2)]
      ultimately show ?thesis
        using created i res Op_init by (auto simp: method_step_def)
    qed
  next
    case (Op_add p price q)
    with res add_items_only [OF ok, of px p price q] show ?thesis
      by (intro items_only) (auto simp: method_step_def)
  next
    case (Op_remove_item iid)
    with res remove_item_items_only [OF ok, of px iid] show ?thesis
      by (intro items_only) (auto simp: method_step_def)
  next
    case (Op_update_item pk q)
    with res update_item_items_only [OF ok, of px pk q] show ?thesis
      by (intro items_only) (auto simp: method_step_def)
  next
    case (Op_update p q price)
    with res update_items_only [OF ok, of px p q price] show ?thesis
      by (intro items_only) (auto simp: method_step_def)
  next
    case (Op_delete_old_cart u)
    with res delete_old_cart_keeps [of "px_cart px" cid s px u] delete_old_cart_next [of px u s]
    show ?thesis
      by (intro carts_only) (auto simp: method_step_def)
  next
    case (Op_replace k u)
    with res replace_keeps [of "px_cart px" cid s px k u] replace_next [of px k u s]
    show ?thesis
      by (intro carts_only) (auto simp: method_step_def)
  next
    case Op_clear
    with res clear_items_only [OF ok, of px] show ?thesis
      by (intro items_only) (auto simp: method_step_def)
  next
    case (Op_get_last_cart u)
    show ?thesis
    proof (cases "objects_get Models_Cart_DoesNotExist
        (\<lambda>r. cart_user r = Some u \<and> checked_out r = False) (carts s)")
      case (Inr found)
      with res Op_get_last_cart ok lt show ?thesis
        by (auto simp: method_step_def get_last_cart_def)
    next
      case (Inl e)
      show ?thesis
      proof (cases "e = Models_Cart_DoesNotExist")
        case False
        with Inl res Op_get_last_cart ok lt show ?thesis
          by (auto simp: method_step_def get_last_cart_def)
      next
        case True
        let ?c = "(px_cart px)\<lparr>cart_user := Some u\<rparr>"
        obtain s2 where save: "cart_save ?c s = Inr s2"
          using cart_save_total by blast
        with Inl True res Op_get_last_cart have eq: "px' = px\<lparr>px_cart := ?c\<rparr>" "s' = s2"
          by (auto simp: method_step_def get_last_cart_def Let_def)
        from lt have "cart_id ?c < next_cart_id s" by simp
        from save_copy [OF save ok this, of cid] Op_get_last_cart lt show ?thesis
          unfolding eq by (auto simp: proxy_sealed_def)
      qed
    qed
  next
    case Op_checkout
    let ?c = "(px_cart px)\<lparr>checked_out := True\<rparr>"
    obtain s2 where save: "cart_save ?c s = Inr s2"
      using cart_save_total by blast
    with res Op_checkout have eq: "px' = px\<lparr>px_cart := ?c\<rparr>" "s' = s2"
      by (auto simp: method_step_def checkout_def Let_def)
    from lt have "cart_id ?c < next_cart_id s" by simp
    from save_copy [OF save ok this, of cid] lt show ?thesis
      unfolding eq by auto
  qed
qed

lemma call_step_keeps:
  assumes "world_ok w"
  shows "world_ok (call_step c w) \<and>
     (store_sealed cid (w_db w) \<and> \<not> stale_get_last_cart cid c w \<longrightarrow>
        store_sealed cid (w_db (call_step c w)))"
proof (cases c)
  case (Construct request cart_arg now)
  obtain r s1 where i: "init request cart_arg now (w_db w) = (r, s1)"
    by (cases "init request cart_arg now (w_db w)")
  from assms have ok: "store_ok (w_db w)"
    and below: "\<forall>px \<in> set (w_proxies w). cart_id (px_cart px) < next_cart_id (w_db w)"
    by (simp_all add: world_ok_def)
  from i show ?thesis
  proof (cases rule: init_cases)
    case (raised e)
    with i Construct assms show ?thesis
      by (simp add: call_step_def world_ok_def)
  next
    case (row p)
    with ok have "cart_id (px_cart p) < next_cart_id (w_db w)"
      by (simp add: store_ok_def)
    with row i Construct assms show ?thesis
      by (simp add: call_step_def world_ok_def)
  next
    case (created p u)
    from ok have "store_ok (snd (cart_insert now u (w_db w)))"
      by (rule store_ok_cart_insert)
    moreover note cart_insert_fields [OF created(2)]
    moreover note cart_insert_sealed(1) [OF created(2)]
    ultimately show ?thesis
      using created i Construct below by (auto simp: call_step_def world_ok_def less_Suc_eq)
  qed
next
  case (Call i op)
  show ?thesis
  proof (cases "i < length (w_proxies w)")
    case False
    with Call assms show ?thesis
      by (simp add: call_step_def)
  next
    case True
    let ?px = "w_proxies w ! i"
    obtain px' s' where m: "method_step op ?px (w_db w) = (px', s')"
      by (cases "method_step op ?px (w_db w)")
    from assms have ok: "store_ok (w_db w)"
      and below: "\<forall>px \<in> set (w_proxies w). cart_id (px_cart px) < next_cart_id (w_db w)"
      by (simp_all add: world_ok_def)
    from below True have lt: "cart_id (px_cart ?px) < next_cart_id (w_db w)"
      by simp
    note step = method_step_world [OF ok lt m, of cid]
    have w': "call_step c w = \<lparr>w_db = s', w_proxies = (w_proxies w)[i := px']\<rparr>"
      using Call True m by (simp add: call_step_def)
    have "cart_id (px_cart p) < next_cart_id s'" if "p \<in> set ((w_proxies w)[i := px'])" for p
    proof -
      from that have "p = px' \<or> p \<in> set (w_proxies w)"
        using set_update_subset_insert [of "w_proxies w" i px'] by auto
      with below step show ?thesis by auto
    qed
    with step have "world_ok (call_step c w)"
      unfolding w' by (simp add: world_ok_def)
    moreover have "store_sealed cid (w_db (call_step c w))"
      if "store_sealed cid (w_db w)" "\<not> stale_get_last_cart cid c w"
    proof -
      from that(2) Call True have "(\<exists>u. op = Op_get_last_cart u) \<longrightarrow> proxy_sealed cid ?px"
        by (auto simp: stale_get_last_cart_def)
      with step that(1) show ?thesis
        unfolding w' by simp
    qed
    ultimately show ?thesis by simp
  qed
qed

lemma calls_keep:
  assumes "world_ok w"
  shows "world_ok (calls cs w) \<and>
     (store_sealed cid (w_db w) \<and> guarded cid cs w \<longrightarrow> store_sealed cid (w_db (calls cs w)))"
  using assms
proof (induction cs arbitrary: w)
  case Nil
  then show ?case by (simp add: calls_def)
next
  case (Cons c cs)
  from call_step_keeps [OF Cons.prems, of c cid] Cons.IH [of "call_step c w"] show ?case
    by (simp add: calls_def)
qed

lemma world_ok_empty: "world_ok empty_world"
  by (simp add: world_ok_def empty_world_def store_ok_def empty_store_def)

lemma checked_out_store_sealed:
  assumes ok: "store_ok s" and "cart_checked_out cid s"
  shows "store_sealed cid s"
proof -
  from assms(2) obtain r where r: "r \<in> set (carts s)" "cart_id r = cid" "checked_out r"
    by (auto simp: cart_checked_out_def)
  have "checked_out x" if "x \<in> set (carts s)" "cart_id x = cid" for x
  proof -
    from ok r that have "x = r"
      by (metis distinct_map inj_onD store_ok_def)
    with r show ?thesis by simp
  qed
  moreover from ok r have "cid < next_cart_id s"
    by (auto simp: store_ok_def)
  ultimately show ?thesis
    by (simp add: store_sealed_def)
qed

lemma store_sealed_not_open: "store_sealed cid s \<Longrightarrow> \<not> cart_open cid s"
  by (auto simp: store_sealed_def cart_open_def)

lemma calls_two_proxies:
  "calls two_proxies empty_world =
     \<lparr>w_db = store_b, w_proxies = [proxy_a, proxy_b\<lparr>px_cart := order_7\<rparr>]\<rparr>"
  by (simp add: calls_def two_proxies_def empty_world_def empty_store_def call_step_def
      method_step_def init_def init_with_def init_try_def new_def cart_insert_def objects_get_def
      checkout_def cart_save_def Let_def user_request_def store_a_def store_b_def proxy_a_def
      proxy_b_def order_7_def)

lemma guarded_later_calls:
  "guarded 1 later_calls \<lparr>w_db = store_b, w_proxies = [proxy_a, proxy_b\<lparr>px_cart := order_7\<rparr>]\<rparr>"
  by (simp add: later_calls_def stale_get_last_cart_def proxy_sealed_def call_step_def
      method_step_def add_def item_insert_def get_last_cart_def replace_def delete_old_cart_def
      cart_delete_def objects_get_def checkout_def cart_save_def Let_def
      user_request_def store_a_def store_b_def proxy_a_def proxy_b_def order_7_def)

text \<open>
  C8, as the claim states it, fails: a cart object is a copy of its row, and
  \<^verbatim>\<open>save()\<close> writes every field of the copy. Two proxies are constructed for user 7
  and both hold cart 1, open. The second checks the cart out. The first, whose copy still
  says open, is asked \<^verbatim>\<open>get_last_cart(7)\<close>: user 7 has no open cart any more, so it
  sets the user on its copy and saves it, and the row is open again.
\<close>

theorem stale_proxy_reopens:
  "init (Some (user_request 7)) None 0 empty_store = (Inr proxy_a, store_a) \<and>
   init (Some (user_request 7)) None 1 store_a = (Inr proxy_b, store_a) \<and>
   checkout proxy_b store_a = (Inr order_7, proxy_b\<lparr>px_cart := order_7\<rparr>, store_b) \<and>
   cart_checked_out 1 store_b \<and>
   get_last_cart proxy_a 7 store_b =
     (Inr (px_cart proxy_a), proxy_a, store_a) \<and>
   cart_open 1 store_a"
  by (simp add: init_def init_with_def init_try_def new_def cart_insert_def objects_get_def
      checkout_def get_last_cart_def cart_save_def Let_def user_request_def
      empty_store_def store_a_def store_b_def proxy_a_def proxy_b_def order_7_def
      cart_checked_out_def cart_open_def)

text \<open>
  C8, amended. A cart is created not checked out. \<^verbatim>\<open>checkout\<close> on a cart that has a
  row marks the proxy's cart object, writes it to that row and returns it; afterwards the
  store holds the cart checked out and no open row under that key. And a cart once checked
  out is never open again: along every sequence of constructor and method calls on any
  number of proxies that does not call \<^verbatim>\<open>get_last_cart\<close> on a proxy still holding
  an open copy of that cart; and, with no such condition, along every sequence in which
  each call goes to the proxy constructed last.
\<close>

theorem checkout_is_terminal:
  "checked_out (fst (new req u now s)) = False \<and>
   ((\<exists>r \<in> set (carts s). cart_id r = cart_id (px_cart px)) \<longrightarrow>
      checkout px s =
        (Inr ((px_cart px)\<lparr>checked_out := True\<rparr>),
         px\<lparr>px_cart := (px_cart px)\<lparr>checked_out := True\<rparr>\<rparr>,
         s\<lparr>carts := map (\<lambda>r. if cart_id r = cart_id (px_cart px)
                                then (px_cart px)\<lparr>checked_out := True\<rparr> else r) (carts s)\<rparr>) \<and>
      cart_checked_out (cart_id (px_cart px)) (snd (snd (checkout px s))) \<and>
      \<not> cart_open (cart_id (px_cart px)) (snd (snd (checkout px s)))) \<and>
   (cart_checked_out cid (w_db (calls cs empty_world)) \<and>
    guarded cid cs' (calls cs empty_world) \<longrightarrow>
      \<not> cart_open cid (w_db (calls cs' (calls cs empty_world)))) \<and>
   (cart_checked_out cid (db (run ops initial_system)) \<longrightarrow>
      \<not> cart_open cid (db (run ops' (run ops initial_system))))"
proof (intro conjI impI)
  show "checked_out (fst (new req u now s)) = False"
    by (simp add: new_def cart_insert_def Let_def)
next
  let ?c = "(px_cart px)\<lparr>checked_out := True\<rparr>"
  let ?s' = "s\<lparr>carts := map (\<lambda>r. if cart_id r = cart_id (px_cart px) then ?c else r) (carts s)\<rparr>"
  assume row: "\<exists>r \<in> set (carts s). cart_id r = cart_id (px_cart px)"
  then have "cart_save ?c s = Inr ?s'"
    by (simp add: cart_save_def)
  then show res: "checkout px s = (Inr ?c, px\<lparr>px_cart := ?c\<rparr>, ?s')"
    by (simp add: checkout_def Let_def)
  from row obtain r where r: "r \<in> set (carts s)" "cart_id r = cart_id (px_cart px)"
    by auto
  then have "?c \<in> set (carts ?s')"
    by (auto simp: image_iff intro!: bexI [of _ r])
  then have "cart_checked_out (cart_id (px_cart px)) ?s'"
    unfolding cart_checked_out_def by (intro bexI [of _ ?c]) simp_all
  then show "cart_checked_out (cart_id (px_cart px)) (snd (snd (checkout px s)))"
    by (simp add: res)
  have "\<not> cart_open (cart_id (px_cart px)) ?s'"
    by (auto simp: cart_open_def)
  then show "\<not> cart_open (cart_id (px_cart px)) (snd (snd (checkout px s)))"
    by (simp add: res)
next
  assume h: "cart_checked_out cid (w_db (calls cs empty_world)) \<and>
    guarded cid cs' (calls cs empty_world)"
  have ok: "world_ok (calls cs empty_world)"
    using calls_keep [OF world_ok_empty] by simp
  then have "store_ok (w_db (calls cs empty_world))"
    by (simp add: world_ok_def)
  with h have "store_sealed cid (w_db (calls cs empty_world))"
    by (simp add: checked_out_store_sealed)
  with h calls_keep [OF ok, of cs' cid]
  have "store_sealed cid (w_db (calls cs' (calls cs empty_world)))" by simp
  then show "\<not> cart_open cid (w_db (calls cs' (calls cs empty_world)))"
    by (rule store_sealed_not_open)
next
  assume c: "cart_checked_out cid (db (run ops initial_system))"
  have ok: "system_ok (run ops initial_system)"
    using run_keeps [OF system_ok_initial] by simp
  from checked_out_sealed [OF ok c] run_keeps [OF ok, of ops' cid]
  have "sealed cid (run ops' (run ops initial_system))" by simp
  then show "\<not> cart_open cid (db (run ops' (run ops initial_system)))"
    by (rule sealed_not_open)
qed

theorem checkout_is_terminal_witness:
  "cart_1 \<in> set (carts store_1) \<and> cart_id cart_1 = cart_id (px_cart proxy_1) \<and>
   checkout proxy_1 store_1 =
     (Inr (cart_1\<lparr>checked_out := True\<rparr>), proxy_1\<lparr>px_cart := cart_1\<lparr>checked_out := True\<rparr>\<rparr>,
      store_1\<lparr>carts := [cart_1\<lparr>checked_out := True\<rparr>]\<rparr>) \<and>
   cart_checked_out 1 (w_db (calls two_proxies empty_world)) \<and>
   guarded 1 later_calls (calls two_proxies empty_world) \<and>
   \<not> cart_open 1 (w_db (calls later_calls (calls two_proxies empty_world))) \<and>
   cart_checked_out 1 (db (run [Op_init (Some (user_request 7)) None 0, Op_checkout] initial_system)) \<and>
   \<not> cart_open 1 (db (run [Op_get_last_cart 7, Op_replace 1 8,
        Op_init (Some (user_request 7)) None 1, Op_add product_A 10 1]
      (run [Op_init (Some (user_request 7)) None 0, Op_checkout] initial_system)))"
proof -
  have row: "cart_1 \<in> set (carts store_1)" "cart_id cart_1 = cart_id (px_cart proxy_1)"
    by (simp_all add: store_1_def proxy_1_def)
  then have "\<exists>r \<in> set (carts store_1). cart_id r = cart_id (px_cart proxy_1)"
    by blast
  with checkout_is_terminal [where px = proxy_1 and s = store_1]
  have co: "checkout proxy_1 store_1 =
     (Inr (cart_1\<lparr>checked_out := True\<rparr>), proxy_1\<lparr>px_cart := cart_1\<lparr>checked_out := True\<rparr>\<rparr>,
      store_1\<lparr>carts := [cart_1\<lparr>checked_out := True\<rparr>]\<rparr>)"
    by (simp add: store_1_def proxy_1_def cart_1_def)
  have w1: "cart_checked_out 1 (w_db (calls two_proxies empty_world))"
    by (simp add: calls_two_proxies cart_checked_out_def store_b_def store_a_def order_7_def)
  have g: "guarded 1 later_calls (calls two_proxies empty_world)"
    unfolding calls_two_proxies by (rule guarded_later_calls)
  have "run [Op_init (Some (user_request 7)) None 0, Op_checkout] initial_system =
      \<lparr>db = store_b, the_proxy = Some (proxy_a\<lparr>px_cart := order_7\<rparr>)\<rparr>"
    by (simp add: run_def initial_system_def empty_store_def step_def
      method_step_def init_def init_with_def init_try_def new_def cart_insert_def objects_get_def
      checkout_def cart_save_def Let_def user_request_def store_a_def store_b_def proxy_a_def
      order_7_def)
  then have c: "cart_checked_out 1 (db (run [Op_init (Some (user_request 7)) None 0, Op_checkout] initial_system))"
    by (simp add: cart_checked_out_def store_b_def store_a_def order_7_def)
  from row co w1 g c checkout_is_terminal [where cid = 1
      and cs = two_proxies and cs' = later_calls
      and ops = "[Op_init (Some (user_request 7)) None 0, Op_checkout]"
      and ops' = "[Op_get_last_cart 7, Op_replace 1 8,
        Op_init (Some (user_request 7)) None 1, Op_add product_A 10 1]"]
  show ?thesis by blast
qed

end
